theory Spec2Isabelle
  imports Main "HOL-Library.AList"
begin


section \<open>Values, errors and field mappings\<close>

text \<open>
  A filesystem location (\<^verbatim>\<open>pathlib.Path\<close>, POSIX flavour) is carried as the text
  \<^verbatim>\<open>str()\<close> gives for it; the operations on locations follow the text primitives
  below.
\<close>

type_synonym path = string

text \<open>
  \<^verbatim>\<open>datetime\<close> at second resolution, and \<^verbatim>\<open>timedelta\<close>, which Python keeps
  normalised and compares by its total; the model stores the total number of seconds.
\<close>

record datetime =
  year :: int
  month :: int
  day :: int
  hour :: int
  minute :: int
  second :: int

datatype timedelta = Timedelta (total_seconds: int)

definition timedelta_of :: "int \<Rightarrow> int \<Rightarrow> int \<Rightarrow> int \<Rightarrow> timedelta" where
  \<comment> \<open>\<^verbatim>\<open>timedelta(days=d, hours=h, minutes=m, seconds=s)\<close>\<close>
  "timedelta_of d h m s = Timedelta (d * 86400 + h * 3600 + m * 60 + s)"

text \<open>
  The exceptions the lifecycle can surface.  \<open>CycleError\<close> is the name the
  specification gives to a detected ownership cycle; \<open>RecursionError\<close> is what the
  interpreter raises when the call stack is exhausted.
\<close>

datatype error =
  FormatError | LoadError | ValidationError | KeyError | AttributeError | TypeError
  | RecursionError | CycleError

text \<open>
  Dynamically typed values as they occur in a field mapping (a \<^verbatim>\<open>dict\<close> with
  string keys, kept in insertion order) and in the fields of a model.  \<open>ModelV\<close> is an
  instance of a \<^verbatim>\<open>BaseModel\<close> class that is not file-backed, given by its fields.
  A \<^verbatim>\<open>float\<close> is carried as the text \<^verbatim>\<open>repr()\<close> gives for it, which is all the
  program does with one; floats with one text are equal (the two zeros, which differ
  in text, and NaN, which differs from itself, apart).
\<close>

datatype pyval =
    NoneV
  | StrV string
  | IntV int
  | FloatV string
  | PathV path
  | DateTimeV datetime
  | TimeDeltaV timedelta
  | ListV "pyval list"
  | DictV "(string \<times> pyval) list"
  | ModelV "(string \<times> pyval) list"

type_synonym mapping = "(string \<times> pyval) list"

definition dict_get :: "mapping \<Rightarrow> string \<Rightarrow> pyval option" where
  "dict_get m k = map_of m k"

definition dict_set :: "mapping \<Rightarrow> string \<Rightarrow> pyval \<Rightarrow> mapping" where
  \<comment> \<open>\<^verbatim>\<open>m[k] = v\<close>: an existing key keeps its position, a new key goes last\<close>
  "dict_set m k v = AList.update k v m"

definition dict_update :: "mapping \<Rightarrow> mapping \<Rightarrow> mapping" where
  \<comment> \<open>\<^verbatim>\<open>m.update(other)\<close>: the items of \<open>other\<close> are stored in their order\<close>
  "dict_update m other = foldl (\<lambda>acc kv. dict_set acc (fst kv) (snd kv)) m other"

fun get_value :: "pyval \<Rightarrow> pyval" where
  \<comment> \<open>\<^verbatim>\<open>pydantic\<close>'s \<^verbatim>\<open>_get_value(v, to_dict=True, exclude_none=True)\<close>: a nested
      model becomes the \<^verbatim>\<open>dict\<close> of its fields that are not \<^verbatim>\<open>None\<close>, lists and
      dictionaries are converted item by item (a \<^verbatim>\<open>None\<close> stays in them)\<close>
  "get_value (ModelV fs) =
     DictV (map (\<lambda>(k, v). (k, get_value v)) (filter (\<lambda>(k, v). v \<noteq> NoneV) fs))"
| "get_value (DictV kvs) = DictV (map (\<lambda>(k, v). (k, get_value v)) kvs)"
| "get_value (ListV vs) = ListV (map get_value vs)"
| "get_value v = v"

text \<open>A value is text when it is a string or a (possibly nested) list of strings.\<close>

fun is_text :: "pyval \<Rightarrow> bool" where
  "is_text (StrV s) = True"
| "is_text (ListV vs) = list_all is_text vs"
| "is_text v = False"

section \<open>Text primitives\<close>

definition newline :: char where
  "newline = CHR 0x0A"

definition is_space :: "char \<Rightarrow> bool" where
  \<comment> \<open>the ASCII whitespace \<^verbatim>\<open>str.split()\<close> separates on\<close>
  "is_space c = (c = CHR '' '' \<or> c = CHR 0x09 \<or> c = CHR 0x0A \<or> c = CHR 0x0B
                 \<or> c = CHR 0x0C \<or> c = CHR 0x0D)"

definition join :: "string \<Rightarrow> string list \<Rightarrow> string" where
  \<comment> \<open>\<^verbatim>\<open>sep.join(parts)\<close>\<close>
  "join sep parts = (case parts of [] \<Rightarrow> [] | p # ps \<Rightarrow> p @ concat (map (\<lambda>q. sep @ q) ps))"

subsection \<open>Filesystem locations\<close>

text \<open>
  \<^verbatim>\<open>pathlib\<close> keeps a location as an anchor (nothing, one slash, or exactly two
  slashes) and its components; empty components and single dots are dropped when a
  location is made from text.  Two dots and symbolic links are left as they are.
\<close>

fun split_sep :: "char \<Rightarrow> string \<Rightarrow> string list" where
  \<comment> \<open>\<^verbatim>\<open>s.split(sep)\<close>\<close>
  "split_sep sep [] = [[]]"
| "split_sep sep (c # cs) =
     (if c = sep then [] # split_sep sep cs
      else (case split_sep sep cs of [] \<Rightarrow> [[c]] | p # ps \<Rightarrow> (c # p) # ps))"

definition path_anchor :: "string \<Rightarrow> string" where
  "path_anchor s =
     (if take 2 s = ''//'' \<and> take 3 s \<noteq> ''///'' then ''//''
      else if take 1 s = ''/'' then ''/'' else [])"

definition path_parts :: "string \<Rightarrow> string list" where
  "path_parts s = filter (\<lambda>q. q \<noteq> [] \<and> q \<noteq> ''.'') (split_sep CHR ''/'' s)"

definition path_str :: "string \<Rightarrow> string list \<Rightarrow> path" where
  \<comment> \<open>\<^verbatim>\<open>str(path)\<close>: the location without components and anchor is a dot\<close>
  "path_str anchor parts = (if anchor = [] \<and> parts = [] then ''.'' else anchor @ join ''/'' parts)"

definition Path :: "string \<Rightarrow> path" where
  \<comment> \<open>\<^verbatim>\<open>Path(s)\<close>\<close>
  "Path s = path_str (path_anchor s) (path_parts s)"

definition path_join :: "path \<Rightarrow> path \<Rightarrow> path" where
  \<comment> \<open>\<^verbatim>\<open>folder / name\<close>: an anchored \<open>name\<close> replaces the folder\<close>
  "path_join folder name =
     (if path_anchor name \<noteq> [] then Path name
      else path_str (path_anchor folder) (path_parts folder @ path_parts name))"

definition absolute :: "path \<Rightarrow> path \<Rightarrow> path" where
  \<comment> \<open>\<^verbatim>\<open>p.absolute()\<close> in the working directory \<open>cwd\<close>: an anchored location is
      returned as it is, any other is joined to the working directory\<close>
  "absolute cwd p = (if path_anchor p \<noteq> [] then Path p else path_join cwd p)"

function split_ws :: "string \<Rightarrow> string list" where
  \<comment> \<open>\<^verbatim>\<open>line.split()\<close>: maximal runs of non-whitespace\<close>
  "split_ws [] = []"
| "split_ws (c # cs) =
     (if is_space c then split_ws cs
      else (c # takeWhile (\<lambda>x. \<not> is_space x) cs) # split_ws (dropWhile (\<lambda>x. \<not> is_space x) cs))"
  by pat_completeness auto
termination
  by (relation "measure length") (auto simp: less_Suc_eq_le length_dropWhile_le)

function split_lines :: "string \<Rightarrow> string list" where
  \<comment> \<open>\<^verbatim>\<open>text.splitlines()\<close> on line feeds: a final line feed ends the last line
      and opens no empty one\<close>
  "split_lines [] = []"
| "split_lines (c # cs) =
     takeWhile (\<lambda>x. x \<noteq> newline) (c # cs) #
       (case dropWhile (\<lambda>x. x \<noteq> newline) (c # cs) of [] \<Rightarrow> [] | _ # r \<Rightarrow> split_lines r)"
  by pat_completeness auto
termination
proof (relation "measure length")
  fix c :: char and cs x21 x22
  assume "dropWhile (\<lambda>x. x \<noteq> newline) (c # cs) = x21 # x22"
  then have "length (x21 # x22) \<le> length (c # cs)"
    by (metis length_dropWhile_le)
  then show "(x22, c # cs) \<in> measure length" by simp
qed simp

subsection \<open>Decimal integers\<close>

definition digit_char :: "nat \<Rightarrow> char" where
  "digit_char d = ''0123456789'' ! d"

definition is_digit :: "char \<Rightarrow> bool" where
  "is_digit c = (48 \<le> (of_char c :: nat) \<and> (of_char c :: nat) \<le> 57)"

definition digit_val :: "char \<Rightarrow> nat" where
  "digit_val c = of_char c - 48"

function str_of_nat :: "nat \<Rightarrow> string" where
  "str_of_nat n = (if n < 10 then [digit_char n] else str_of_nat (n div 10) @ [digit_char (n mod 10)])"
  by pat_completeness auto
termination
  by (relation "measure id") auto

definition nat_of_digits :: "string \<Rightarrow> nat" where
  "nat_of_digits ds = foldl (\<lambda>acc c. 10 * acc + digit_val c) 0 ds"

definition str_of_int :: "int \<Rightarrow> string" where
  \<comment> \<open>\<^verbatim>\<open>str(n)\<close>\<close>
  "str_of_int n = (if n < 0 then CHR ''-'' # str_of_nat (nat (- n)) else str_of_nat (nat n))"

definition int_of_str :: "string \<Rightarrow> int option" where
  \<comment> \<open>an integer token: an optional minus sign and one or more decimal digits\<close>
  "int_of_str s =
     (case s of
        [] \<Rightarrow> None
      | c # ds \<Rightarrow>
          if c = CHR ''-''
          then (if ds \<noteq> [] \<and> list_all is_digit ds then Some (- int (nat_of_digits ds)) else None)
          else (if list_all is_digit s then Some (int (nat_of_digits s)) else None))"

fun all_some :: "'a option list \<Rightarrow> 'a list option" where
  "all_some [] = Some []"
| "all_some (None # xs) = None"
| "all_some (Some x # xs) = (case all_some xs of None \<Rightarrow> None | Some ys \<Rightarrow> Some (x # ys))"

definition ints_of_tokens :: "string list \<Rightarrow> int list option" where
  "ints_of_tokens toks = all_some (map int_of_str toks)"

section \<open>The precipitation format: durations and event blocks\<close>

text \<open>
  The parser and the serializer of the precipitation format
  (\<^verbatim>\<open>hydrolib/core/io/bui/parser.py\<close>, \<^verbatim>\<open>serializer.py\<close>) are not among the available
  sources; what follows in this section and the next is written from the
  specification's grammar (4.2) and layout (4.3), with the result types the tests in
  \<^verbatim>\<open>tests/io/test_bui.py\<close> pin down.
\<close>

definition decompose_duration :: "int \<Rightarrow> int \<times> int \<times> int \<times> int" where
  \<comment> \<open>Modelled from the spec: the serializer's duration decomposition (4.3):
      \<^verbatim>\<open>days = total // 86400; r = total % 86400; hours = r // 3600; r %= 3600;
      minutes = r // 60; seconds = r % 60\<close>\<close>
  "decompose_duration t =
     (let days = t div 86400;
          r = t mod 86400;
          hours = r div 3600;
          r' = r mod 3600;
          minutes = r' div 60;
          seconds = r' mod 60
      in (days, hours, minutes, seconds))"

definition reconstruct_duration :: "int \<times> int \<times> int \<times> int \<Rightarrow> int" where
  \<comment> \<open>Modelled from the spec: \<^verbatim>\<open>days*86400 + hours*3600 + minutes*60 + seconds\<close>\<close>
  "reconstruct_duration q = (case q of (d, h, m, s) \<Rightarrow> d * 86400 + h * 3600 + m * 60 + s)"

subsection \<open>Timestamps\<close>

definition is_leap :: "int \<Rightarrow> bool" where
  "is_leap y = ((y mod 4 = 0 \<and> y mod 100 \<noteq> 0) \<or> y mod 400 = 0)"

definition days_in_month :: "int \<Rightarrow> int \<Rightarrow> int" where
  "days_in_month y m =
     (if m = 2 then (if is_leap y then 29 else 28)
      else if m = 4 \<or> m = 6 \<or> m = 9 \<or> m = 11 then 30 else 31)"

definition valid_datetime :: "datetime \<Rightarrow> bool" where
  \<comment> \<open>the ranges \<^verbatim>\<open>datetime(...)\<close> accepts\<close>
  "valid_datetime dt =
     (1 \<le> year dt \<and> year dt \<le> 9999 \<and> 1 \<le> month dt \<and> month dt \<le> 12
      \<and> 1 \<le> day dt \<and> day dt \<le> days_in_month (year dt) (month dt)
      \<and> 0 \<le> hour dt \<and> hour dt \<le> 23 \<and> 0 \<le> minute dt \<and> minute dt \<le> 59
      \<and> 0 \<le> second dt \<and> second dt \<le> 59)"

subsection \<open>Event blocks\<close>

text \<open>
  One event as \<^verbatim>\<open>models.py\<close> declares it (\<^verbatim>\<open>BuiPrecipitationEvent\<close>); the readings
  are held as the decimal text of the file, as the specification's data model
  requires.
\<close>

record precipitation_event =
  start_time :: datetime
  timeseries_length :: timedelta
  precipitation_per_timestep :: "string list list"

definition parse_event_time_reference :: "string \<Rightarrow> error + (datetime \<times> timedelta)" where
  \<comment> \<open>Modelled from the spec: the header line of an event block (4.2, 5a): ten
      integer tokens \<^verbatim>\<open>Y M D h m s dd hh mm ss\<close>; anything else is a
      \<open>FormatError\<close>.  The tests require the results to be a \<^verbatim>\<open>datetime\<close> and a
      \<^verbatim>\<open>timedelta\<close> (\<^verbatim>\<open>test_bui.py\<close>, lines 80-81).\<close>
  "parse_event_time_reference line =
     (case ints_of_tokens (split_ws line) of
        Some [y, mo, d, h, mi, s, dd, hh, mm, ss] \<Rightarrow>
          (let dt = \<lparr>year = y, month = mo, day = d, hour = h, minute = mi, second = s\<rparr>
           in if valid_datetime dt then Inr (dt, timedelta_of dd hh mm ss)
              else Inl FormatError)
      | _ \<Rightarrow> Inl FormatError)"

definition is_header_line :: "string \<Rightarrow> bool" where
  \<comment> \<open>Modelled from the spec: the ten-integer header shape that ends the rows of
      the event before it (4.2, 5c)\<close>
  "is_header_line line =
     (case ints_of_tokens (split_ws line) of Some ns \<Rightarrow> length ns = 10 | None \<Rightarrow> False)"

definition parse_event_lines :: "string list \<Rightarrow> error + precipitation_event" where
  \<comment> \<open>Modelled from the spec: one block, its header line first, every further line a
      data row split on whitespace and kept as text (4.2, 5b)\<close>
  "parse_event_lines ls =
     (case ls of
        [] \<Rightarrow> Inl FormatError
      | h # rows \<Rightarrow>
          (case parse_event_time_reference h of
             Inl e \<Rightarrow> Inl e
           | Inr (dt, td) \<Rightarrow>
               Inr \<lparr>start_time = dt, timeseries_length = td,
                    precipitation_per_timestep = map split_ws rows\<rparr>))"

definition rows_value :: "string list list \<Rightarrow> pyval" where
  "rows_value rows = ListV (map (\<lambda>r. ListV (map StrV r)) rows)"

definition event_fields :: "precipitation_event \<Rightarrow> mapping" where
  \<comment> \<open>the \<^verbatim>\<open>dict\<close> of one event, with the keys the tests read\<close>
  "event_fields e =
     [(''start_time'', DateTimeV (start_time e)),
      (''timeseries_length'', TimeDeltaV (timeseries_length e)),
      (''precipitation_per_timestep'', rows_value (precipitation_per_timestep e))]"

definition BuiEventParser_parse :: "string \<Rightarrow> error + mapping" where
  \<comment> \<open>Modelled from the spec: \<^verbatim>\<open>BuiEventParser.parse(raw_text)\<close>, the Event Block
      Parser on the text of one block\<close>
  "BuiEventParser_parse raw_text =
     (case parse_event_lines (split_lines raw_text) of
        Inl e \<Rightarrow> Inl e
      | Inr ev \<Rightarrow> Inr (event_fields ev))"

section \<open>The precipitation format: documents\<close>

definition comment_marker :: char where
  "comment_marker = CHR ''*''"

definition is_comment :: "string \<Rightarrow> bool" where
  "is_comment line = (case line of [] \<Rightarrow> False | c # _ \<Rightarrow> c = comment_marker)"

definition tokenize_lines :: "string \<Rightarrow> string list" where
  \<comment> \<open>Modelled from the spec: the Line Tokenizer (2): logical lines, comment lines
      dropped\<close>
  "tokenize_lines txt = filter (\<lambda>l. \<not> is_comment l) (split_lines txt)"

function event_blocks :: "string list \<Rightarrow> string list list" where
  \<comment> \<open>Modelled from the spec: rows accumulate under the current event until a line of
      the header shape is met (4.2, tie-break)\<close>
  "event_blocks [] = []"
| "event_blocks (h # ls) =
     (h # takeWhile (\<lambda>l. \<not> is_header_line l) ls) #
       event_blocks (dropWhile (\<lambda>l. \<not> is_header_line l) ls)"
  by pat_completeness auto
termination
  by (relation "measure length") (auto simp: less_Suc_eq_le length_dropWhile_le)

fun parse_all :: "('a \<Rightarrow> error + 'b) \<Rightarrow> 'a list \<Rightarrow> error + 'b list" where
  \<comment> \<open>the first failure aborts the whole parse\<close>
  "parse_all f [] = Inr []"
| "parse_all f (x # xs) =
     (case f x of
        Inl e \<Rightarrow> Inl e
      | Inr y \<Rightarrow> (case parse_all f xs of Inl e \<Rightarrow> Inl e | Inr ys \<Rightarrow> Inr (y # ys)))"

text \<open>
  What the Document Parser extracts: the four leading fields as the text of the file,
  and the events.
\<close>

record parsed_document =
  p_default_dataset :: string
  p_number_of_stations :: string
  p_name_of_stations :: "string list"
  p_number_of_events :: string
  p_seconds_per_timestep :: string
  p_precipitation_events :: "precipitation_event list"

definition is_int_token :: "string \<Rightarrow> bool" where
  "is_int_token s = (int_of_str s \<noteq> None)"

definition parse_document_lines :: "string list \<Rightarrow> error + parsed_document" where
  \<comment> \<open>Modelled from the spec: the grammar of 4.2 on the comment-free lines; a
      violated line 1-4 structure, a missing first event or a bad header is a
      \<open>FormatError\<close>\<close>
  "parse_document_lines ls =
     (case ls of
        l1 # l2 # l3 # l4 # rest \<Rightarrow>
          (case (split_ws l1, split_ws l2, split_ws l4) of
             ([ds], [ns], [ne, sp]) \<Rightarrow>
               if is_int_token ds \<and> is_int_token ns \<and> is_int_token ne \<and> is_int_token sp
                  \<and> rest \<noteq> []
               then (case parse_all parse_event_lines (event_blocks rest) of
                       Inl e \<Rightarrow> Inl e
                     | Inr evs \<Rightarrow>
                         Inr \<lparr>p_default_dataset = ds, p_number_of_stations = ns,
                              p_name_of_stations = split_ws l3,
                              p_number_of_events = ne, p_seconds_per_timestep = sp,
                              p_precipitation_events = evs\<rparr>)
               else Inl FormatError
           | _ \<Rightarrow> Inl FormatError)
      | _ \<Rightarrow> Inl FormatError)"

definition parsed_fields :: "parsed_document \<Rightarrow> mapping" where
  \<comment> \<open>the field mapping handed to validation, keyed by the field names of
      \<^verbatim>\<open>BuiModel\<close>; the event list nests as \<^verbatim>\<open>BuiPrecipitationEventList\<close> does\<close>
  "parsed_fields p =
     [(''default_dataset'', StrV (p_default_dataset p)),
      (''number_of_stations'', StrV (p_number_of_stations p)),
      (''name_of_stations'', ListV (map StrV (p_name_of_stations p))),
      (''number_of_events'', StrV (p_number_of_events p)),
      (''seconds_per_timestep'', StrV (p_seconds_per_timestep p)),
      (''precipitation_events'',
         DictV [(''precipitation_event_list'',
                 ListV (map (\<lambda>e. DictV (event_fields e)) (p_precipitation_events p)))])]"

definition BuiParser_parse_text :: "string \<Rightarrow> error + mapping" where
  \<comment> \<open>Modelled from the spec: the Document Parser on the text of a file\<close>
  "BuiParser_parse_text txt =
     (case parse_document_lines (tokenize_lines txt) of
        Inl e \<Rightarrow> Inl e
      | Inr p \<Rightarrow> Inr (parsed_fields p))"

definition BuiParser_parse :: "(path \<Rightarrow> string option) \<Rightarrow> pyval \<Rightarrow> error + mapping" where
  \<comment> \<open>Modelled from the spec: \<^verbatim>\<open>BuiParser.parse(filepath)\<close>; the location is a
      \<^verbatim>\<open>Path\<close> or the text of one; a missing file, or a value that is no location,
      is a \<open>LoadError\<close>\<close>
  "BuiParser_parse read_text location =
     (case (case location of PathV p \<Rightarrow> read_text p | StrV s \<Rightarrow> read_text (Path s)
            | _ \<Rightarrow> None) of
        None \<Rightarrow> Inl LoadError
      | Some txt \<Rightarrow> BuiParser_parse_text txt)"

subsection \<open>The document and its serializer\<close>

text \<open>
  The serializer renders the fields it is given and validates nothing: it writes the
  text of the four leading fields and of the station names, and the events.
\<close>

definition two_digits :: "int \<Rightarrow> string" where
  "two_digits n = [digit_char (nat n div 10 mod 10), digit_char (nat n mod 10)]"

definition format_now :: "datetime \<Rightarrow> string" where
  \<comment> \<open>\<^verbatim>\<open>now.strftime("%d-%m-%y %H:%M:%S")\<close>\<close>
  "format_now t =
     two_digits (day t) @ ''-'' @ two_digits (month t) @ ''-'' @ two_digits (year t mod 100)
       @ '' '' @ two_digits (hour t) @ '':'' @ two_digits (minute t) @ '':''
       @ two_digits (second t)"

definition serialize_start_time :: "datetime \<Rightarrow> string" where
  "serialize_start_time dt =
     join '' '' (map str_of_int [year dt, month dt, day dt, hour dt, minute dt, second dt])"

definition serialize_timeseries_length :: "timedelta \<Rightarrow> string" where
  \<comment> \<open>Modelled from the spec: the four duration tokens (4.3)\<close>
  "serialize_timeseries_length td =
     (case decompose_duration (total_seconds td) of
        (d, h, m, s) \<Rightarrow> join '' '' (map str_of_int [d, h, m, s]))"

definition serialize_stations_ids :: "string list \<Rightarrow> string" where
  "serialize_stations_ids names = join '' '' names"

definition serialize_precipitation_per_timestep :: "string list list \<Rightarrow> string" where
  "serialize_precipitation_per_timestep rows = join [newline] (map (join '' '') rows)"

definition serialize_event_lines :: "precipitation_event \<Rightarrow> string list" where
  "serialize_event_lines e =
     (serialize_start_time (start_time e) @ '' '' @
        serialize_timeseries_length (timeseries_length e))
     # map (join '' '') (precipitation_per_timestep e)"

definition serialize_lines :: "path \<Rightarrow> datetime \<Rightarrow> parsed_document \<Rightarrow> string list" where
  \<comment> \<open>Modelled from the spec: the layout of 4.3, line by line\<close>
  "serialize_lines location now d =
     [''*Name of this file: '' @ location,
      ''*Date and time of construction: '' @ format_now now,
      ''*Comments are following an * (asterisk) and written above variables'',
      p_default_dataset d,
      ''*Number of stations'',
      p_number_of_stations d,
      ''*Station Name'',
      serialize_stations_ids (p_name_of_stations d),
      ''*Number_of_events seconds_per_timestamp'',
      p_number_of_events d @ '' '' @ p_seconds_per_timestep d,
      ''*Start datetime and number of timestamps in the format: yyyy#m#d:#h#m#s:#d#h#m#s'',
      ''*Observations per timestamp (row) and per station (column)'']
     @ concat (map serialize_event_lines (p_precipitation_events d))"

definition BuiSerializer_serialize :: "path \<Rightarrow> datetime \<Rightarrow> parsed_document \<Rightarrow> string" where
  \<comment> \<open>Modelled from the spec: the Document Serializer; the text carries the location
      and the time of writing in its first two comment lines\<close>
  "BuiSerializer_serialize location now d = join [newline] (serialize_lines location now d)"

subsection \<open>From a mapping to the text of its fields\<close>

text \<open>
  The mapping the serializer is given holds text, as the mapping the parser returns
  does, or numbers, as the \<^verbatim>\<open>dict\<close> of a model does; \<^verbatim>\<open>str()\<close> gives the text of
  either.
\<close>

definition py_str :: "pyval \<Rightarrow> error + string" where
  \<comment> \<open>Modelled from the spec: \<^verbatim>\<open>str(v)\<close> of a text or a number; the serializer has
      no rendering for any other value\<close>
  "py_str v =
     (case v of
        StrV s \<Rightarrow> Inr s
      | IntV n \<Rightarrow> Inr (str_of_int n)
      | FloatV r \<Rightarrow> Inr r
      | _ \<Rightarrow> Inl TypeError)"

definition py_list :: "(pyval \<Rightarrow> error + 'a) \<Rightarrow> pyval \<Rightarrow> error + 'a list" where
  "py_list f v = (case v of ListV vs \<Rightarrow> parse_all f vs | _ \<Rightarrow> Inl TypeError)"

definition py_key :: "pyval \<Rightarrow> string \<Rightarrow> (pyval \<Rightarrow> error + 'a) \<Rightarrow> error + 'a" where
  \<comment> \<open>\<^verbatim>\<open>data[key]\<close>, handed on: a missing key is a \<open>KeyError\<close>\<close>
  "py_key v k f =
     (case v of
        DictV m \<Rightarrow> (case dict_get m k of None \<Rightarrow> Inl KeyError | Some x \<Rightarrow> f x)
      | _ \<Rightarrow> Inl TypeError)"

definition render_event :: "pyval \<Rightarrow> error + precipitation_event" where
  \<comment> \<open>Modelled from the spec: one event of the mapping, its readings as text\<close>
  "render_event v =
     (case py_key v ''start_time''
             (\<lambda>x. case x of DateTimeV dt \<Rightarrow> Inr dt | _ \<Rightarrow> Inl TypeError) of
        Inl e \<Rightarrow> Inl e
      | Inr dt \<Rightarrow>
          (case py_key v ''timeseries_length''
                  (\<lambda>x. case x of TimeDeltaV td \<Rightarrow> Inr td | _ \<Rightarrow> Inl TypeError) of
             Inl e \<Rightarrow> Inl e
           | Inr td \<Rightarrow>
               (case py_key v ''precipitation_per_timestep'' (py_list (py_list py_str)) of
                  Inl e \<Rightarrow> Inl e
                | Inr rows \<Rightarrow>
                    Inr \<lparr>start_time = dt, timeseries_length = td,
                         precipitation_per_timestep = rows\<rparr>)))"

definition render_document :: "mapping \<Rightarrow> error + parsed_document" where
  \<comment> \<open>Modelled from the spec: the fields of the mapping the layout of 4.3 shows, each
      as its text\<close>
  "render_document data =
     (case py_key (DictV data) ''default_dataset'' py_str of
        Inl e \<Rightarrow> Inl e
      | Inr ds \<Rightarrow>
     (case py_key (DictV data) ''number_of_stations'' py_str of
        Inl e \<Rightarrow> Inl e
      | Inr ns \<Rightarrow>
     (case py_key (DictV data) ''name_of_stations'' (py_list py_str) of
        Inl e \<Rightarrow> Inl e
      | Inr names \<Rightarrow>
     (case py_key (DictV data) ''number_of_events'' py_str of
        Inl e \<Rightarrow> Inl e
      | Inr ne \<Rightarrow>
     (case py_key (DictV data) ''seconds_per_timestep'' py_str of
        Inl e \<Rightarrow> Inl e
      | Inr sp \<Rightarrow>
     (case py_key (DictV data) ''precipitation_events''
             (\<lambda>x. py_key x ''precipitation_event_list'' (py_list render_event)) of
        Inl e \<Rightarrow> Inl e
      | Inr evs \<Rightarrow>
          Inr \<lparr>p_default_dataset = ds, p_number_of_stations = ns, p_name_of_stations = names,
               p_number_of_events = ne, p_seconds_per_timestep = sp,
               p_precipitation_events = evs\<rparr>))))))"

definition write_bui_file :: "datetime \<Rightarrow> path \<Rightarrow> mapping \<Rightarrow> error + string" where
  \<comment> \<open>Modelled from the spec: \<^verbatim>\<open>write_bui_file(path, data)\<close>: the text written to
      \<open>path\<close> when the clock reads \<open>now\<close>\<close>
  "write_bui_file now location data =
     (case render_document data of
        Inl e \<Rightarrow> Inl e
      | Inr d \<Rightarrow> Inr (BuiSerializer_serialize location now d))"

subsection \<open>The model\<close>

text \<open>
  The fields \<^verbatim>\<open>BuiModel\<close> declares besides its location (\<^verbatim>\<open>models.py\<close>).  The
  readings of an event are floats there; each is carried as the text \<^verbatim>\<open>repr()\<close>
  gives for it, in a \<open>precipitation_event\<close>.
\<close>

record bui_model =
  default_dataset :: int
  number_of_stations :: int
  name_of_stations :: "string list"
  number_of_events :: int
  seconds_per_timestep :: int
  precipitation_events :: "precipitation_event list"

definition BuiPrecipitationEvent :: "precipitation_event \<Rightarrow> pyval" where
  \<comment> \<open>an event as an instance of its model class\<close>
  "BuiPrecipitationEvent e =
     ModelV [(''start_time'', DateTimeV (start_time e)),
             (''timeseries_length'', TimeDeltaV (timeseries_length e)),
             (''precipitation_per_timestep'',
                ListV (map (\<lambda>r. ListV (map FloatV r)) (precipitation_per_timestep e)))]"

definition BuiModel_fields :: "bui_model \<Rightarrow> (string \<times> pyval) list" where
  \<comment> \<open>the values of the fields, in declaration order; the events are held in a
      \<^verbatim>\<open>BuiPrecipitationEventList\<close>\<close>
  "BuiModel_fields d =
     [(''default_dataset'', IntV (default_dataset d)),
      (''number_of_stations'', IntV (number_of_stations d)),
      (''name_of_stations'', ListV (map StrV (name_of_stations d))),
      (''number_of_events'', IntV (number_of_events d)),
      (''seconds_per_timestep'', IntV (seconds_per_timestep d)),
      (''precipitation_events'',
         ModelV [(''precipitation_event_list'',
                  ListV (map BuiPrecipitationEvent (precipitation_events d)))])]"

definition BuiModel_dict :: "bui_model \<Rightarrow> mapping" where
  \<comment> \<open>\<^verbatim>\<open>model.dict()\<close> without the location\<close>
  "BuiModel_dict d = map (\<lambda>(name, v). (name, get_value v)) (BuiModel_fields d)"

text \<open>
  The documents the format can carry (3, 4.2, 4.3): the four leading fields are
  integers in text, tokens are non-empty and free of whitespace, every row has a
  reading, no row has the shape of a header, no data line starts with the comment
  marker, and there is at least one event.
\<close>

definition is_token :: "string \<Rightarrow> bool" where
  "is_token s = (s \<noteq> [] \<and> list_all (\<lambda>c. \<not> is_space c) s)"

definition valid_row :: "string list \<Rightarrow> bool" where
  "valid_row r =
     (r \<noteq> [] \<and> list_all is_token r \<and> \<not> is_comment (join '' '' r)
      \<and> \<not> is_header_line (join '' '' r))"

definition valid_event :: "precipitation_event \<Rightarrow> bool" where
  "valid_event e =
     (valid_datetime (start_time e) \<and> list_all valid_row (precipitation_per_timestep e))"

definition valid_document :: "parsed_document \<Rightarrow> bool" where
  "valid_document d =
     (is_int_token (p_default_dataset d) \<and> is_int_token (p_number_of_stations d)
      \<and> is_int_token (p_number_of_events d) \<and> is_int_token (p_seconds_per_timestep d)
      \<and> list_all is_token (p_name_of_stations d)
      \<and> \<not> is_comment (serialize_stations_ids (p_name_of_stations d))
      \<and> p_precipitation_events d \<noteq> []
      \<and> list_all valid_event (p_precipitation_events d))"

text \<open>
  The ten integers of an event's header line, and a model's fields as the text of its
  file shows them.
\<close>

definition header_ints :: "precipitation_event \<Rightarrow> int list" where
  "header_ints e =
     (case decompose_duration (total_seconds (timeseries_length e)) of
        (d, h, m, s) \<Rightarrow>
          [year (start_time e), month (start_time e), day (start_time e), hour (start_time e),
           minute (start_time e), second (start_time e), d, h, m, s])"

definition document_text :: "bui_model \<Rightarrow> parsed_document" where
  "document_text d =
     \<lparr>p_default_dataset = str_of_int (default_dataset d),
      p_number_of_stations = str_of_int (number_of_stations d),
      p_name_of_stations = name_of_stations d,
      p_number_of_events = str_of_int (number_of_events d),
      p_seconds_per_timestep = str_of_int (seconds_per_timestep d),
      p_precipitation_events = precipitation_events d\<rparr>"

section \<open>The file-backed model lifecycle\<close>

text \<open>
  \<^verbatim>\<open>hydrolib/core/basemodel.py\<close>.  A concrete \<^verbatim>\<open>FileModel\<close> class supplies four
  class methods: \<^verbatim>\<open>_filename\<close>, \<^verbatim>\<open>_ext\<close>, \<^verbatim>\<open>_get_serializer\<close> and
  \<^verbatim>\<open>_get_parser\<close>.  A serializer is called with the location and the mapping and
  writes a file; the model has it return the text it writes, and lets it read the
  clock, as the precipitation serializer does.  A parser is called with whatever was
  given as the location (Python does not enforce the annotation \<^verbatim>\<open>Optional[Path]\<close>)
  and returns a mapping or raises.
\<close>

record file_format =
  fmt_filename :: string
  fmt_ext :: string
  fmt_serializer :: "datetime \<Rightarrow> path \<Rightarrow> mapping \<Rightarrow> error + string"
  fmt_parser :: "pyval \<Rightarrow> error + mapping"

definition generate_name :: "file_format \<Rightarrow> path" where
  \<comment> \<open>\<^verbatim>\<open>_generate_name\<close>: \<^verbatim>\<open>Path(f"{name}{ext}")\<close>\<close>
  "generate_name fmt = Path (fmt_filename fmt @ fmt_ext fmt)"

subsection \<open>Construction\<close>

definition truthy :: "pyval \<Rightarrow> bool" where
  \<comment> \<open>\<^verbatim>\<open>bool(v)\<close>, as a condition reads a value; a \<^verbatim>\<open>Path\<close> is always true\<close>
  "truthy v =
     (case v of
        NoneV \<Rightarrow> False
      | StrV s \<Rightarrow> s \<noteq> []
      | IntV n \<Rightarrow> n \<noteq> 0
      | FloatV r \<Rightarrow> r \<noteq> ''0.0'' \<and> r \<noteq> ''-0.0''
      | PathV p \<Rightarrow> True
      | DateTimeV d \<Rightarrow> True
      | TimeDeltaV td \<Rightarrow> total_seconds td \<noteq> 0
      | ListV vs \<Rightarrow> vs \<noteq> []
      | DictV kvs \<Rightarrow> kvs \<noteq> []
      | ModelV fs \<Rightarrow> True)"

definition FileModel_init_kwargs :: "file_format \<Rightarrow> pyval \<Rightarrow> mapping \<Rightarrow> error + mapping" where
  \<comment> \<open>\<^verbatim>\<open>__init__\<close> up to the call of \<^verbatim>\<open>super().__init__(*args, **kwargs)\<close>: the
      keyword arguments handed on.  \<^verbatim>\<open>if filepath: data = self._load(filepath);
      data["filepath"] = filepath; kwargs.update(data)\<close>.  The parameter
      \<^verbatim>\<open>filepath\<close> is \<^verbatim>\<open>None\<close> when it is not given.\<close>
  "FileModel_init_kwargs fmt filepath kwargs =
     (if truthy filepath
      then (case fmt_parser fmt filepath of
              Inl e \<Rightarrow> Inl e
            | Inr data \<Rightarrow> Inr (dict_update kwargs (dict_set data ''filepath'' filepath)))
      else Inr kwargs)"

definition FileModel_init ::
  "file_format \<Rightarrow> (mapping \<Rightarrow> error + 'e) \<Rightarrow> pyval \<Rightarrow> mapping \<Rightarrow> error + 'e" where
  \<comment> \<open>\<^verbatim>\<open>__init__\<close>; \<open>base_init\<close> is \<^verbatim>\<open>pydantic.BaseModel.__init__\<close>, the validation
      and coercion of the keyword arguments\<close>
  "FileModel_init fmt base_init filepath kwargs =
     (case FileModel_init_kwargs fmt filepath kwargs of
        Inl e \<Rightarrow> Inl e
      | Inr m \<Rightarrow> base_init m)"

subsection \<open>Validation of a field value\<close>

text \<open>
  What reaches \<^verbatim>\<open>validate\<close> for a field of a \<^verbatim>\<open>FileModel\<close> type: an instance of
  the class, or any other value.
\<close>

datatype 'e validate_arg = Instance 'e | Raw pyval

definition construct_from_dict ::
  "file_format \<Rightarrow> (mapping \<Rightarrow> error + 'e) \<Rightarrow> mapping \<Rightarrow> error + 'e" where
  \<comment> \<open>\<^verbatim>\<open>cls(**value)\<close>: the key \<^verbatim>\<open>filepath\<close> binds the parameter of that name,
      whatever its value, and the other items are the keyword arguments; a key
      \<^verbatim>\<open>self\<close> collides with the first parameter\<close>
  "construct_from_dict fmt base_init d =
     (if dict_get d ''self'' \<noteq> None then Inl TypeError
      else FileModel_init fmt base_init
             (case dict_get d ''filepath'' of None \<Rightarrow> NoneV | Some v \<Rightarrow> v)
             (AList.delete ''filepath'' d))"

text \<open>
  \<^verbatim>\<open>dict(value)\<close> on a value that is no \<^verbatim>\<open>dict\<close>: the value is iterated and every
  item must itself yield exactly two items, a key that can be hashed and a value.
  Iterating a string yields its characters, a list its items, a dictionary its keys,
  a model the pairs of its fields (a pair stands here as a list of two).
\<close>

definition py_iter :: "pyval \<Rightarrow> pyval list option" where
  "py_iter v =
     (case v of
        StrV s \<Rightarrow> Some (map (\<lambda>c. StrV [c]) s)
      | ListV vs \<Rightarrow> Some vs
      | DictV kvs \<Rightarrow> Some (map (\<lambda>kv. StrV (fst kv)) kvs)
      | ModelV fs \<Rightarrow> Some (map (\<lambda>kv. ListV [StrV (fst kv), snd kv]) fs)
      | _ \<Rightarrow> None)"

definition pair_of :: "pyval \<Rightarrow> (pyval \<times> pyval) option" where
  "pair_of item = (case py_iter item of Some [k, v] \<Rightarrow> Some (k, v) | _ \<Rightarrow> None)"

definition hashable :: "pyval \<Rightarrow> bool" where
  "hashable v = (case v of ListV vs \<Rightarrow> False | DictV kvs \<Rightarrow> False | ModelV fs \<Rightarrow> False | _ \<Rightarrow> True)"

definition dict_items :: "pyval \<Rightarrow> (pyval \<times> pyval) list option" where
  \<comment> \<open>the items \<^verbatim>\<open>dict(value)\<close> stores, in order; \<open>None\<close> when it raises
      \<^verbatim>\<open>TypeError\<close> or \<^verbatim>\<open>ValueError\<close>\<close>
  "dict_items v =
     (case py_iter v of
        None \<Rightarrow> None
      | Some items \<Rightarrow>
          (case all_some (map pair_of items) of
             None \<Rightarrow> None
           | Some kvs \<Rightarrow> if list_all (\<lambda>kv. hashable (fst kv)) kvs then Some kvs else None))"

fun keyword_args :: "(pyval \<times> pyval) list \<Rightarrow> mapping \<Rightarrow> mapping option" where
  \<comment> \<open>the keyword arguments of \<^verbatim>\<open>cls(**d)\<close>: every key must be a string; of two
      items with one key the later value stands\<close>
  "keyword_args [] m = Some m"
| "keyword_args ((StrV k, v) # kvs) m = keyword_args kvs (dict_set m k v)"
| "keyword_args ((key, v) # kvs) m = None"

definition pydantic_validate ::
  "file_format \<Rightarrow> (mapping \<Rightarrow> error + 'e) \<Rightarrow> 'e validate_arg \<Rightarrow> error + 'e" where
  \<comment> \<open>\<^verbatim>\<open>pydantic.BaseModel.validate\<close> (version 1), the \<^verbatim>\<open>super().validate(value)\<close>
      of the source: an instance is taken as it is, a \<^verbatim>\<open>dict\<close> constructs the
      class, and any other value is first turned into one with \<^verbatim>\<open>dict(value)\<close>,
      whose failure is the validation failure \<^verbatim>\<open>DictError\<close>\<close>
  "pydantic_validate fmt base_init v =
     (case v of
        Instance m \<Rightarrow> Inr m
      | Raw (DictV d) \<Rightarrow> construct_from_dict fmt base_init d
      | Raw x \<Rightarrow>
          (case dict_items x of
             None \<Rightarrow> Inl ValidationError
           | Some kvs \<Rightarrow>
               (case keyword_args kvs [] of
                  None \<Rightarrow> Inl TypeError
                | Some d \<Rightarrow> construct_from_dict fmt base_init d)))"

definition FileModel_validate ::
  "file_format \<Rightarrow> (mapping \<Rightarrow> error + 'e) \<Rightarrow> 'e validate_arg \<Rightarrow> error + 'e" where
  \<comment> \<open>\<^verbatim>\<open>validate\<close>: \<^verbatim>\<open>if isinstance(value, Path): value = {"filepath": value}\<close>,
      then \<^verbatim>\<open>super().validate(value)\<close>\<close>
  "FileModel_validate fmt base_init v =
     pydantic_validate fmt base_init
       (case v of Raw (PathV p) \<Rightarrow> Raw (DictV [(''filepath'', PathV p)]) | _ \<Rightarrow> v)"

definition const_parser :: "mapping \<Rightarrow> pyval \<Rightarrow> error + mapping" where
  \<comment> \<open>a parser for examples: every file holds the same fields\<close>
  "const_parser data location = Inr data"

definition no_serializer :: "datetime \<Rightarrow> path \<Rightarrow> mapping \<Rightarrow> error + string" where
  \<comment> \<open>a serializer for examples that writes an empty file\<close>
  "no_serializer now p data = Inr []"

subsection \<open>Saving a graph of models\<close>

text \<open>
  Models are objects with identity: a field may hold another \<^verbatim>\<open>FileModel\<close>, two
  fields may hold the same one, and assignments can close a cycle.  The store maps
  addresses to objects.  A field holds a nested \<^verbatim>\<open>FileModel\<close> (by its address) or
  any other value.  \<open>obj_fields\<close> are the fields other than \<^verbatim>\<open>filepath\<close>, in
  declaration order.  \<^verbatim>\<open>save\<close> looks for a \<^verbatim>\<open>FileModel\<close> in the values of the
  fields only; one held inside a list, a dictionary or a nested plain model is not
  saved, and such graphs are not described here.
\<close>

type_synonym addr = nat

datatype field_value = Plain pyval | Child addr

record fm_object =
  obj_format :: string
  filepath :: "path option"
  obj_fields :: "(string \<times> field_value) list"

text \<open>
  The world a call of \<^verbatim>\<open>save\<close> acts on: the objects, the serializer calls made so
  far (location, mapping, text written), the reading of the clock and the working
  directory.  The clock is read once for a call of \<^verbatim>\<open>save\<close>: all the serializers it
  calls see one reading, and another call may see another.
\<close>

record world =
  heap :: "addr \<Rightarrow> fm_object option"
  written :: "(path \<times> mapping \<times> string) list"
  clock :: datetime
  cwd :: path

fun model_dict :: "string list \<Rightarrow> (string \<times> field_value) list \<Rightarrow> mapping" where
  \<comment> \<open>\<^verbatim>\<open>self.dict(exclude=exclude, exclude_none=True)\<close>; every field that holds a
      \<^verbatim>\<open>FileModel\<close> is among \<open>exclude\<close> when \<^verbatim>\<open>save\<close> calls it\<close>
  "model_dict exclude [] = []"
| "model_dict exclude ((name, Plain v) # fs) =
     (if name \<in> set exclude \<or> v = NoneV then model_dict exclude fs
      else (name, get_value v) # model_dict exclude fs)"
| "model_dict exclude ((name, Child c) # fs) = model_dict exclude fs"

fun save_children ::
  "(world \<Rightarrow> addr \<Rightarrow> (error + string) \<times> world) \<Rightarrow> world \<Rightarrow> (string \<times> field_value) list
     \<Rightarrow> mapping \<Rightarrow> (error + mapping) \<times> world" where
  \<comment> \<open>the loop \<^verbatim>\<open>for name, value in self\<close>: each \<^verbatim>\<open>FileModel\<close> value is saved and
      its returned location stored under the field's name; an exception ends the
      loop\<close>
  "save_children sv w [] filemodel_fields = (Inr filemodel_fields, w)"
| "save_children sv w ((name, Plain v) # fs) filemodel_fields =
     save_children sv w fs filemodel_fields"
| "save_children sv w ((name, Child c) # fs) filemodel_fields =
     (case sv w c of
        (Inl e, w') \<Rightarrow> (Inl e, w')
      | (Inr loc, w') \<Rightarrow> save_children sv w' fs (dict_set filemodel_fields name (StrV loc)))"

definition bind_location :: "file_format \<Rightarrow> path \<Rightarrow> fm_object \<Rightarrow> fm_object" where
  \<comment> \<open>\<^verbatim>\<open>if not self.filepath: self.filepath = folder / self._generate_name()\<close>\<close>
  "bind_location fmt folder obj =
     (case filepath obj of
        None \<Rightarrow> obj\<lparr>filepath := Some (path_join folder (generate_name fmt))\<rparr>
      | Some p \<Rightarrow> obj)"

definition save_data :: "mapping \<Rightarrow> fm_object \<Rightarrow> mapping" where
  \<comment> \<open>the mapping handed to the serializer:
      \<^verbatim>\<open>data = self.dict(exclude=exclude, exclude_none=True);
      data.update(filemodel_fields)\<close>, where \<^verbatim>\<open>exclude\<close> holds \<^verbatim>\<open>"filepath"\<close> and the
      names of the fields that hold a \<^verbatim>\<open>FileModel\<close>\<close>
  "save_data filemodel_fields self =
     dict_update (model_dict (''filepath'' # map fst filemodel_fields) (obj_fields self))
       filemodel_fields"

primrec save ::
  "(string \<Rightarrow> file_format) \<Rightarrow> nat \<Rightarrow> path \<Rightarrow> world \<Rightarrow> addr \<Rightarrow> (error + string) \<times> world" where
  \<comment> \<open>\<^verbatim>\<open>save(self, folder)\<close> on the object at an address.  The first argument
      resolves a class name to its four capabilities; the second is the number of
      nested calls the interpreter's stack still allows, and a call beyond it raises
      \<open>RecursionError\<close>.  An address that holds no object cannot arise in Python,
      where a field holds the object itself; the model answers \<open>AttributeError\<close>.\<close>
  "save fmts 0 folder w a = (Inl RecursionError, w)"
| "save fmts (Suc n) folder w a =
     (case heap w a of
        None \<Rightarrow> (Inl AttributeError, w)
      | Some obj \<Rightarrow>
          (let fmt = fmts (obj_format obj);
               w1 = w\<lparr>heap := (heap w)(a \<mapsto> bind_location fmt folder obj)\<rparr>
           in case save_children (save fmts n folder) w1 (obj_fields obj) [] of
                (Inl e, w2) \<Rightarrow> (Inl e, w2)
              | (Inr filemodel_fields, w2) \<Rightarrow>
                  (case heap w2 a of
                     None \<Rightarrow> (Inl AttributeError, w2)
                   | Some self \<Rightarrow>
                       (case filepath self of
                          None \<Rightarrow> (Inl AttributeError, w2)
                        | Some fp \<Rightarrow>
                            (let data = save_data filemodel_fields self
                             in case fmt_serializer fmt (clock w2) fp data of
                                  Inl e \<Rightarrow> (Inl e, w2)
                                | Inr txt \<Rightarrow>
                                    (Inr (absolute (cwd w2) fp),
                                     w2\<lparr>written := written w2 @ [(fp, data, txt)]\<rparr>))))))"

definition files_of ::
  "path \<Rightarrow> (path \<times> mapping \<times> string) list \<Rightarrow> path \<Rightarrow> string option" where
  \<comment> \<open>the files on disk after a sequence of writes made in the working directory
      \<open>dir\<close>, by their absolute locations: the last write to a location stands\<close>
  "files_of dir ws = map_of (rev (map (\<lambda>(p, data, txt). (absolute dir p, txt)) ws))"

definition serializer_calls :: "(path \<times> mapping \<times> string) list \<Rightarrow> (path \<times> mapping) list" where
  "serializer_calls ws = map (\<lambda>(p, data, txt). (p, data)) ws"

text \<open>
  One store differs from another only by locations bound by \<^verbatim>\<open>save\<close> into \<open>folder\<close>:
  every object is as before, except that an absent location may have become the
  folder joined with the default name of the object's format.
\<close>

definition bound_from ::
  "(string \<Rightarrow> file_format) \<Rightarrow> path \<Rightarrow> (addr \<Rightarrow> fm_object option) \<Rightarrow> (addr \<Rightarrow> fm_object option) \<Rightarrow> bool" where
  "bound_from fmts folder h h' =
     (\<forall>b. case h b of
            None \<Rightarrow> h' b = None
          | Some obj \<Rightarrow> h' b = Some obj \<or> h' b = Some (bind_location (fmts (obj_format obj)) folder obj))"




definition serializer_raises :: "(string \<Rightarrow> file_format) \<Rightarrow> error \<Rightarrow> bool" where
  \<comment> \<open>the serializer of some class raises this exception on some call\<close>
  "serializer_raises fmts e = (\<exists>name t p d. fmt_serializer (fmts name) t p d = Inl e)"

text \<open>
  What a call of \<^verbatim>\<open>save\<close> can do to the world: bind locations, and add serializer
  calls after those already made.
\<close>

definition save_step :: "(string \<Rightarrow> file_format) \<Rightarrow> path \<Rightarrow> world \<Rightarrow> world \<Rightarrow> bool" where
  "save_step fmts folder w w' =
     (bound_from fmts folder (heap w) (heap w') \<and> clock w' = clock w \<and> cwd w' = cwd w
      \<and> take (length (written w)) (written w') = written w)"

text \<open>
  The fields of an object that hold a \<^verbatim>\<open>FileModel\<close>, in order, and the string
  \<^verbatim>\<open>str(self.filepath.absolute())\<close> that \<^verbatim>\<open>save\<close> returns for a bound object.
\<close>

fun child_fields :: "(string \<times> field_value) list \<Rightarrow> (string \<times> addr) list" where
  "child_fields [] = []"
| "child_fields ((name, Plain v) # fs) = child_fields fs"
| "child_fields ((name, Child c) # fs) = (name, c) # child_fields fs"

definition location_of :: "world \<Rightarrow> addr \<Rightarrow> string option" where
  "location_of w a =
     (case heap w a of
        None \<Rightarrow> None
      | Some obj \<Rightarrow> (case filepath obj of None \<Rightarrow> None | Some fp \<Rightarrow> Some (absolute (cwd w) fp)))"

definition child_locations :: "world \<Rightarrow> (string \<times> field_value) list \<Rightarrow> mapping" where
  \<comment> \<open>each field that holds a \<^verbatim>\<open>FileModel\<close>, with that model's location as a string\<close>
  "child_locations w fs =
     map (\<lambda>(name, c). (name, case location_of w c of None \<Rightarrow> NoneV | Some loc \<Rightarrow> StrV loc))
       (child_fields fs)"

subsection \<open>Example formats and objects\<close>

definition test_format :: file_format where
  \<comment> \<open>the defaults of the abstract class: \<^verbatim>\<open>"test"\<close>, \<^verbatim>\<open>".test"\<close>\<close>
  "test_format =
     \<lparr>fmt_filename = ''test'', fmt_ext = ''.test'', fmt_serializer = no_serializer,
      fmt_parser = const_parser []\<rparr>"

definition test_formats :: "string \<Rightarrow> file_format" where
  "test_formats name = test_format"

definition example_clock :: datetime where
  "example_clock = \<lparr>year = 2021, month = 12, day = 20, hour = 0, minute = 42, second = 24\<rparr>"




text \<open>
  The location an object has once \<^verbatim>\<open>save\<close> has come to it: its own, or the folder
  joined with the default name of its class.
\<close>

definition resolved_location :: "file_format \<Rightarrow> path \<Rightarrow> fm_object \<Rightarrow> path" where
  "resolved_location fmt folder obj =
     (case filepath obj of None \<Rightarrow> path_join folder (generate_name fmt) | Some p \<Rightarrow> p)"


text \<open>
  The nesting below an object is at most \<open>k\<close> levels deep, the object itself being the
  first; and no serializer raises.
\<close>

primrec within_depth :: "(addr \<Rightarrow> fm_object option) \<Rightarrow> nat \<Rightarrow> addr \<Rightarrow> bool" where
  "within_depth h 0 a = False"
| "within_depth h (Suc k) a =
     (case h a of
        None \<Rightarrow> False
      | Some obj \<Rightarrow> list_all (\<lambda>(name, c). within_depth h k c) (child_fields (obj_fields obj)))"

definition serializers_succeed :: "(string \<Rightarrow> file_format) \<Rightarrow> bool" where
  "serializers_succeed fmts = (\<forall>e. \<not> serializer_raises fmts e)"

definition example_graph :: world where
  \<comment> \<open>a root with two nested models, none of them bound to a location\<close>
  "example_graph =
     \<lparr>heap = [0 \<mapsto> \<lparr>obj_format = ''Root'', filepath = None,
                       obj_fields = [(''first'', Child 1), (''x'', Plain (IntV 3)),
                                     (''second'', Child 2), (''note'', Plain NoneV)]\<rparr>,
              1 \<mapsto> \<lparr>obj_format = ''Leaf'', filepath = None,
                       obj_fields = [(''v'', Plain (StrV ''one''))]\<rparr>,
              2 \<mapsto> \<lparr>obj_format = ''Leaf'', filepath = None,
                       obj_fields = [(''v'', Plain (StrV ''two''))]\<rparr>],
      written = [], clock = example_clock, cwd = ''/home''\<rparr>"

definition example_formats :: "string \<Rightarrow> file_format" where
  \<comment> \<open>the root class names its file \<^verbatim>\<open>root.test\<close>, every other class keeps the
      defaults\<close>
  "example_formats name =
     (if name = ''Root'' then test_format\<lparr>fmt_filename := ''root''\<rparr> else test_format)"



subsection \<open>Saving again\<close>

text \<open>
  A second call of \<^verbatim>\<open>save\<close> acts on a world in which more locations are bound, and
  may read another time from the clock.  \<open>same_failures\<close> says that whether, and with
  which exception, a serializer fails does not depend on the clock.
\<close>

definition outcome :: "error + string \<Rightarrow> error + unit" where
  "outcome r = map_sum id (\<lambda>out. ()) r"

definition same_failures :: "(string \<Rightarrow> file_format) \<Rightarrow> datetime \<Rightarrow> datetime \<Rightarrow> bool" where
  "same_failures fmts t t' =
     (\<forall>name p d. outcome (fmt_serializer (fmts name) t p d)
                 = outcome (fmt_serializer (fmts name) t' p d))"

definition same_text :: "(string \<Rightarrow> file_format) \<Rightarrow> datetime \<Rightarrow> datetime \<Rightarrow> bool" where
  \<comment> \<open>every serializer does at both readings of the clock the same: so it is when the
      readings are equal, and when no serializer reads the clock\<close>
  "same_text fmts t t' =
     (\<forall>name p d. fmt_serializer (fmts name) t p d = fmt_serializer (fmts name) t' p d)"

definition later_world :: "(string \<Rightarrow> file_format) \<Rightarrow> path \<Rightarrow> world \<Rightarrow> world \<Rightarrow> bool" where
  "later_world fmts folder w v =
     (bound_from fmts folder (heap w) (heap v) \<and> cwd v = cwd w
      \<and> same_failures fmts (clock w) (clock v))"

definition merge_heap ::
  "(addr \<Rightarrow> fm_object option) \<Rightarrow> (addr \<Rightarrow> fm_object option) \<Rightarrow> addr \<Rightarrow> fm_object option" where
  \<comment> \<open>the objects of \<open>hv\<close>, those without a location taken from \<open>hw\<close>\<close>
  "merge_heap hv hw b =
     (case hv b of
        None \<Rightarrow> None
      | Some obj \<Rightarrow> (case filepath obj of None \<Rightarrow> hw b | Some p \<Rightarrow> Some obj))"

definition reran ::
  "(string \<Rightarrow> file_format) \<Rightarrow> world \<Rightarrow> world \<Rightarrow> world \<Rightarrow> world \<Rightarrow> bool" where
  \<comment> \<open>the step from \<open>v\<close> to \<open>v'\<close> repeats the step from \<open>w\<close> to \<open>w'\<close>: the same
      locations are bound, the same serializer calls are made, and the same text is
      written when the serializers do the same at the two readings of the clock\<close>
  "reran fmts w w' v v' =
     (heap v' = merge_heap (heap v) (heap w') \<and> clock v' = clock v \<and> cwd v' = cwd v
      \<and> take (length (written v)) (written v') = written v
      \<and> serializer_calls (drop (length (written v)) (written v'))
          = serializer_calls (drop (length (written w)) (written w'))
      \<and> (if same_text fmts (clock w) (clock v)
          then drop (length (written v)) (written v') = drop (length (written w)) (written w')
          else True))"

section \<open>The precipitation model as a file-backed model\<close>

text \<open>
  \<^verbatim>\<open>BuiModel\<close> (\<^verbatim>\<open>hydrolib/core/io/bui/models.py\<close>): the file name \<^verbatim>\<open>bui_file\<close>, the
  extension \<^verbatim>\<open>.bui\<close>, the serializer \<^verbatim>\<open>write_bui_file\<close> and the parser
  \<^verbatim>\<open>BuiParser.parse\<close>, which reads the file at the location.
\<close>

definition bui_format :: "(path \<Rightarrow> string option) \<Rightarrow> file_format" where
  "bui_format read_text =
     \<lparr>fmt_filename = ''bui_file'', fmt_ext = ''.bui'', fmt_serializer = write_bui_file,
      fmt_parser = BuiParser_parse read_text\<rparr>"

definition no_files :: "path \<Rightarrow> string option" where
  "no_files p = None"

definition bui_formats :: "string \<Rightarrow> file_format" where
  "bui_formats name = (if name = ''BuiModel'' then bui_format no_files else test_format)"

definition bui_object :: "bui_model \<Rightarrow> fm_object" where
  \<comment> \<open>an unbound \<^verbatim>\<open>BuiModel\<close> with the fields of a document\<close>
  "bui_object d =
     \<lparr>obj_format = ''BuiModel'', filepath = None,
      obj_fields = map (\<lambda>(name, v). (name, Plain v)) (BuiModel_fields d)\<rparr>"

definition default_bui_model :: bui_model where
  \<comment> \<open>\<^verbatim>\<open>get_default_bui_model\<close> of \<^verbatim>\<open>tests/io/test_bui.py\<close>; the station name is
      written with the right single quotation mark, three bytes in UTF-8, on both
      sides\<close>
  "default_bui_model =
     \<lparr>default_dataset = 1, number_of_stations = 1,
      name_of_stations =
        [[CHR 0xE2, CHR 0x80, CHR 0x99] @ ''Station1'' @ [CHR 0xE2, CHR 0x80, CHR 0x99]],
      number_of_events = 1, seconds_per_timestep = 10800,
      precipitation_events =
        [\<lparr>start_time = \<lparr>year = 1996, month = 1, day = 1, hour = 0, minute = 0, second = 0\<rparr>,
          timeseries_length = timedelta_of 1 0 0 10800,
          precipitation_per_timestep = replicate 9 [''0.2'']\<rparr>]\<rparr>"

definition bui_world :: world where
  \<comment> \<open>one unbound \<^verbatim>\<open>BuiModel\<close>, the clock at 2021-12-20 00:42:24\<close>
  "bui_world =
     \<lparr>heap = [0 \<mapsto> bui_object default_bui_model], written = [], clock = example_clock,
      cwd = ''/home''\<rparr>"

definition a_second_later :: datetime where
  "a_second_later = example_clock\<lparr>second := 25\<rparr>"

definition written_lines :: "(path \<times> mapping \<times> string) list \<Rightarrow> nat \<Rightarrow> string list" where
  \<comment> \<open>line \<open>i\<close> of the text of each write\<close>
  "written_lines ws i = map (\<lambda>(p, data, out). split_lines out ! i) ws"

definition ten_stations :: parsed_document where
  \<comment> \<open>ten stations and one event of one hour with one row of readings, all of them
      \<^verbatim>\<open>0\<close>\<close>
  "ten_stations =
     \<lparr>p_default_dataset = ''1'', p_number_of_stations = ''10'',
      p_name_of_stations = [''a'', ''b'', ''c'', ''d'', ''e'', ''f'', ''g'', ''h'', ''i'', ''j''],
      p_number_of_events = ''1'', p_seconds_per_timestep = ''3600'',
      p_precipitation_events =
        [\<lparr>start_time = \<lparr>year = 2021, month = 12, day = 20, hour = 0, minute = 0, second = 0\<rparr>,
          timeseries_length = timedelta_of 0 1 0 0,
          precipitation_per_timestep =
            [[''0'', ''0'', ''0'', ''0'', ''0'', ''0'', ''0'', ''0'', ''0'', ''0'']]\<rparr>]\<rparr>"

section \<open>Properties of the precipitation format\<close>

subsection \<open>Durations\<close>

lemma decompose_reconstruct: "reconstruct_duration (decompose_duration t) = t"
proof -
  have a: "t div 86400 * 86400 + t mod 86400 = t" by simp
  have b: "t mod 86400 div 3600 * 3600 + t mod 86400 mod 3600 = t mod 86400" by simp
  have c: "t mod 86400 mod 3600 div 60 * 60 + t mod 86400 mod 3600 mod 60
             = t mod 86400 mod 3600" by simp
  show ?thesis
    unfolding decompose_duration_def reconstruct_duration_def Let_def prod.case
    using a b c by linarith
qed

text \<open>
  C6.  For every non-negative number of seconds \<open>t\<close>, decomposing \<open>t\<close> into days,
  hours, minutes and seconds and reconstructing
  \<open>days*86400 + hours*3600 + minutes*60 + seconds\<close> gives \<open>t\<close> back; and
  \<open>4*86400 + 2000\<close> decomposes into \<open>(4, 0, 33, 20)\<close>.
\<close>

theorem duration_decomposition_inverse:
  "(0 \<le> t \<longrightarrow> reconstruct_duration (decompose_duration t) = t)
   \<and> decompose_duration (4 * 86400 + 2000) = (4, 0, 33, 20)"
  by (simp add: decompose_reconstruct) (simp add: decompose_duration_def)

theorem duration_decomposition_inverse_witness:
  "(0::int) \<le> 93784 \<and> reconstruct_duration (decompose_duration 93784) = 93784"
  using duration_decomposition_inverse [of 93784] by simp

subsection \<open>The event block of the tests\<close>

text \<open>
  C7.  The block with the header line \<^verbatim>\<open>2021 12 20 0 0 0 1 0 4 20\<close> and the two rows
  \<^verbatim>\<open>4.2\<close>, \<^verbatim>\<open>4.2\<close> parses to the start time 2021-12-20T00:00:00, the duration of
  1 day, 0 hours, 4 minutes and 20 seconds, and the values \<open>[["4.2"], ["4.2"]]\<close>.
\<close>

theorem event_block_scenario:
  "BuiEventParser_parse (join [newline] [''2021 12 20 0 0 0 1 0 4 20'', ''4.2'', ''4.2'']) =
     Inr [(''start_time'',
             DateTimeV \<lparr>year = 2021, month = 12, day = 20, hour = 0, minute = 0, second = 0\<rparr>),
          (''timeseries_length'', TimeDeltaV (timedelta_of 1 0 4 20)),
          (''precipitation_per_timestep'',
             ListV [ListV [StrV ''4.2''], ListV [StrV ''4.2'']])]
   \<and> decompose_duration (total_seconds (timedelta_of 1 0 4 20)) = (1, 0, 4, 20)"
  by (simp add: BuiEventParser_parse_def parse_event_lines_def parse_event_time_reference_def
      event_fields_def rows_value_def join_def newline_def ints_of_tokens_def int_of_str_def
      is_space_def is_digit_def nat_of_digits_def digit_val_def valid_datetime_def
      days_in_month_def is_leap_def timedelta_of_def decompose_duration_def)

subsection \<open>Lines and tokens\<close>

lemma join_Nil [simp]: "join sep [] = []"
  by (simp add: join_def)

lemma join_single [simp]: "join sep [p] = p"
  by (simp add: join_def)

lemma join_Cons2: "join sep (p # q # qs) = p @ sep @ join sep (q # qs)"
  by (simp add: join_def)

lemma split_lines_line:
  assumes "newline \<notin> set l"
  shows "split_lines (l @ newline # rest) = l # split_lines rest"
proof -
  from assms have tw: "takeWhile (\<lambda>x. x \<noteq> newline) (l @ newline # rest) = l"
    by (induction l) auto
  from assms have dw: "dropWhile (\<lambda>x. x \<noteq> newline) (l @ newline # rest) = newline # rest"
    by (induction l) auto
  obtain c cs where "l @ newline # rest = c # cs" by (cases "l @ newline # rest") auto
  then have "split_lines (l @ newline # rest) =
      takeWhile (\<lambda>x. x \<noteq> newline) (l @ newline # rest) #
       (case dropWhile (\<lambda>x. x \<noteq> newline) (l @ newline # rest) of [] \<Rightarrow> []
        | _ # r \<Rightarrow> split_lines r)"
    by (metis split_lines.simps(2))
  then show ?thesis by (simp add: tw dw)
qed

lemma split_lines_last:
  assumes "newline \<notin> set l" and "l \<noteq> []"
  shows "split_lines l = [l]"
proof -
  from assms(1) have tw: "takeWhile (\<lambda>x. x \<noteq> newline) l = l"
    by (induction l) auto
  from assms(1) have dw: "dropWhile (\<lambda>x. x \<noteq> newline) l = []"
    by (induction l) auto
  from assms(2) obtain c cs where l: "l = c # cs" by (cases l) auto
  have "split_lines (c # cs) =
      takeWhile (\<lambda>x. x \<noteq> newline) (c # cs) #
       (case dropWhile (\<lambda>x. x \<noteq> newline) (c # cs) of [] \<Rightarrow> [] | _ # r \<Rightarrow> split_lines r)"
    by (rule split_lines.simps(2))
  then show ?thesis using tw dw by (simp add: l)
qed

lemma split_lines_join:
  assumes "\<forall>l \<in> set ls. newline \<notin> set l" and "ls = [] \<or> last ls \<noteq> []"
  shows "split_lines (join [newline] ls) = ls"
  using assms
proof (induction ls rule: induct_list012)
  case 1
  then show ?case by simp
next
  case (2 l)
  then show ?case by (simp add: split_lines_last)
next
  case (3 l l' ls)
  then have "split_lines (join [newline] (l' # ls)) = l' # ls" by simp
  moreover from 3 have "newline \<notin> set l" by simp
  ultimately show ?case
    by (simp add: join_Cons2 split_lines_line)
qed

lemma is_token_Cons: "is_token s \<Longrightarrow> \<exists>c cs. s = c # cs \<and> \<not> is_space c \<and> list_all (\<lambda>x. \<not> is_space x) cs"
  by (cases s) (auto simp: is_token_def)

lemma split_ws_token:
  assumes "is_token t" and "rest = [] \<or> is_space (hd rest)"
  shows "split_ws (t @ rest) = t # split_ws rest"
proof -
  from is_token_Cons [OF assms(1)] obtain c cs where t: "t = c # cs" and c: "\<not> is_space c"
    and cs: "list_all (\<lambda>x. \<not> is_space x) cs" by blast
  from cs assms(2) have tw: "takeWhile (\<lambda>x. \<not> is_space x) (cs @ rest) = cs"
    by (induction cs) (auto simp: takeWhile_eq_Nil_iff neq_Nil_conv)
  from cs assms(2) have dw: "dropWhile (\<lambda>x. \<not> is_space x) (cs @ rest) = rest"
    by (induction cs) (auto simp: dropWhile_eq_self_iff neq_Nil_conv)
  show ?thesis using c by (simp add: t tw dw)
qed

lemma split_ws_space: "split_ws (CHR '' '' # rest) = split_ws rest"
  by (simp add: is_space_def)

lemma split_ws_join:
  assumes "list_all is_token toks"
  shows "split_ws (join '' '' toks) = toks"
  using assms
proof (induction toks rule: induct_list012)
  case 1
  then show ?case by simp
next
  case (2 t)
  then show ?case using split_ws_token [of t "[]"] by simp
next
  case (3 t t' ts)
  then have IH: "split_ws (join '' '' (t' # ts)) = t' # ts" by simp
  from 3 have t: "is_token t" by simp
  have "split_ws (t @ CHR '' '' # join '' '' (t' # ts)) = t # split_ws (CHR '' '' # join '' '' (t' # ts))"
    using t by (rule split_ws_token) (simp add: is_space_def)
  moreover have "is_space CHR '' ''" by (simp add: is_space_def)
  ultimately show ?case
    by (simp add: join_Cons2 IH)
qed

lemma split_ws_two:
  assumes "is_token a" and "is_token b"
  shows "split_ws (a @ '' '' @ b) = [a, b]"
  using split_ws_join [of "[a, b]"] assms by (simp add: join_Cons2)

lemma split_ws_one: "is_token a \<Longrightarrow> split_ws a = [a]"
  using split_ws_join [of "[a]"] by simp

lemma join_no_newline:
  assumes "list_all is_token toks"
  shows "newline \<notin> set (join '' '' toks)"
  using assms
proof (induction toks rule: induct_list012)
  case (3 t t' ts)
  then show ?case
    by (auto simp: join_Cons2 is_token_def list_all_iff is_space_def newline_def)
qed (auto simp: is_token_def list_all_iff is_space_def newline_def)

lemma join_nonempty: "toks \<noteq> [] \<Longrightarrow> list_all is_token toks \<Longrightarrow> join '' '' toks \<noteq> []"
  by (cases toks) (auto simp: join_def is_token_def)

lemma join_hd:
  "toks \<noteq> [] \<Longrightarrow> list_all is_token toks \<Longrightarrow> hd (join '' '' toks) = hd (hd toks)"
  by (cases toks) (auto simp: join_def is_token_def)


subsection \<open>Decimal integers, written and read back\<close>

lemma digit_cases:
  "d < 10 \<Longrightarrow> d = 0 \<or> d = 1 \<or> d = 2 \<or> d = 3 \<or> d = 4 \<or> d = 5 \<or> d = 6 \<or> d = 7 \<or> d = 8
     \<or> d = (9::nat)"
  by arith

lemma digit_char_props:
  assumes "d < 10"
  shows "is_digit (digit_char d)" and "digit_val (digit_char d) = d"
  using digit_cases [OF assms]
  by (auto simp: digit_char_def is_digit_def digit_val_def)

lemma is_digit_plain:
  assumes "is_digit c"
  shows "\<not> is_space c" and "c \<noteq> CHR ''-''" and "c \<noteq> comment_marker" and "c \<noteq> newline"
  using assms by (auto simp: is_digit_def is_space_def comment_marker_def newline_def)

declare str_of_nat.simps [simp del]

lemma str_of_nat_digits: "list_all is_digit (str_of_nat n)"
proof (induction n rule: str_of_nat.induct)
  case (1 n)
  show ?case
  proof (cases "n < 10")
    case True
    then show ?thesis by (subst str_of_nat.simps) (simp add: digit_char_props)
  next
    case False
    with 1 show ?thesis
      by (subst str_of_nat.simps) (simp add: digit_char_props)
  qed
qed

lemma str_of_nat_nonempty: "str_of_nat n \<noteq> []"
  by (subst str_of_nat.simps) simp

lemma nat_of_digits_snoc: "nat_of_digits (ds @ [c]) = 10 * nat_of_digits ds + digit_val c"
  by (simp add: nat_of_digits_def)

lemma nat_of_digits_str_of_nat: "nat_of_digits (str_of_nat n) = n"
proof (induction n rule: str_of_nat.induct)
  case (1 n)
  show ?case
  proof (cases "n < 10")
    case True
    then show ?thesis
      by (subst str_of_nat.simps) (simp add: nat_of_digits_def digit_char_props)
  next
    case False
    with 1 show ?thesis
      by (subst str_of_nat.simps) (simp add: nat_of_digits_snoc digit_char_props)
  qed
qed

lemma int_of_str_digits:
  assumes "list_all is_digit s" and "s \<noteq> []"
  shows "int_of_str s = Some (int (nat_of_digits s))"
proof -
  from assms obtain c cs where s: "s = c # cs" by (cases s) auto
  with assms(1) have "is_digit c" by simp
  then have "c \<noteq> CHR ''-''" by (rule is_digit_plain)
  with assms(1) show ?thesis by (simp add: int_of_str_def s)
qed

lemma int_of_str_str_of_int [simp]: "int_of_str (str_of_int n) = Some n"
proof (cases "n < 0")
  case True
  then show ?thesis
    by (simp add: str_of_int_def int_of_str_def str_of_nat_digits str_of_nat_nonempty
        nat_of_digits_str_of_nat)
next
  case False
  then show ?thesis
    by (simp add: str_of_int_def int_of_str_digits str_of_nat_digits str_of_nat_nonempty
        nat_of_digits_str_of_nat)
qed

lemma str_of_int_chars:
  assumes "c \<in> set (str_of_int n)"
  shows "is_digit c \<or> c = CHR ''-''"
  using assms str_of_nat_digits [of "nat n"] str_of_nat_digits [of "nat (- n)"]
  by (auto simp: str_of_int_def list_all_iff split: if_splits)

lemma str_of_int_token [simp]: "is_token (str_of_int n)"
proof -
  have "str_of_int n \<noteq> []"
    by (simp add: str_of_int_def str_of_nat_nonempty)
  moreover have "\<not> is_space c" if "c \<in> set (str_of_int n)" for c
    using str_of_int_chars [OF that] is_digit_plain(1) [of c] by (auto simp: is_space_def)
  ultimately show ?thesis by (auto simp: is_token_def list_all_iff)
qed

lemma str_of_int_no_comment [simp]: "\<not> is_comment (str_of_int n @ rest)"
proof -
  obtain c cs where s: "str_of_int n = c # cs"
    using str_of_int_token [of n] by (cases "str_of_int n") (auto simp: is_token_def)
  then have "c \<in> set (str_of_int n)" by simp
  from str_of_int_chars [OF this] have "c \<noteq> comment_marker"
    using is_digit_plain(3) [of c] by (auto simp: comment_marker_def)
  then show ?thesis by (simp add: is_comment_def s)
qed

lemma is_token_no_newline: "is_token s \<Longrightarrow> newline \<notin> set s"
  by (auto simp: is_token_def list_all_iff is_space_def newline_def)

lemma ints_of_tokens_str [simp]: "ints_of_tokens (map str_of_int ns) = Some ns"
  by (induction ns) (simp_all add: ints_of_tokens_def)


subsection \<open>Event blocks, written and read back\<close>

lemma header_line:
  "serialize_start_time (start_time e) @ '' '' @ serialize_timeseries_length (timeseries_length e)
     = join '' '' (map str_of_int (header_ints e))"
  by (simp add: serialize_start_time_def serialize_timeseries_length_def header_ints_def join_def
      split: prod.splits)

lemma header_ints_length: "length (header_ints e) = 10"
  by (simp add: header_ints_def split: prod.splits)

lemma header_tokens:
  "split_ws (join '' '' (map str_of_int (header_ints e))) = map str_of_int (header_ints e)"
  by (rule split_ws_join) (simp add: list_all_iff)

lemma timedelta_of_decompose:
  "decompose_duration (total_seconds td) = (d, h, m, s) \<Longrightarrow> timedelta_of d h m s = td"
  using decompose_reconstruct [of "total_seconds td"]
  by (cases td) (simp add: timedelta_of_def reconstruct_duration_def)

lemma parse_header:
  assumes "valid_datetime (start_time e)"
  shows "parse_event_time_reference (join '' '' (map str_of_int (header_ints e)))
           = Inr (start_time e, timeseries_length e)"
proof -
  obtain d h m s where dec: "decompose_duration (total_seconds (timeseries_length e)) = (d, h, m, s)"
    by (cases "decompose_duration (total_seconds (timeseries_length e))") auto
  then have hi: "header_ints e =
          [year (start_time e), month (start_time e), day (start_time e), hour (start_time e),
           minute (start_time e), second (start_time e), d, h, m, s]"
    by (simp add: header_ints_def)
  have "ints_of_tokens (split_ws (join '' '' (map str_of_int (header_ints e)))) = Some (header_ints e)"
    by (simp only: header_tokens ints_of_tokens_str)
  moreover have rec: "\<lparr>year = year (start_time e), month = month (start_time e),
      day = day (start_time e), hour = hour (start_time e), minute = minute (start_time e),
      second = second (start_time e)\<rparr> = start_time e"
    by (cases "start_time e") simp
  ultimately show ?thesis
    using assms timedelta_of_decompose [OF dec]
    by (simp add: parse_event_time_reference_def hi Let_def rec)
qed

lemma header_is_header: "is_header_line (join '' '' (map str_of_int (header_ints e)))"
  by (simp only: is_header_line_def header_tokens ints_of_tokens_str option.case header_ints_length)

lemma header_tokens_ok: "list_all is_token (map str_of_int (header_ints e))"
  by (simp add: list_all_iff)

lemma header_no_newline: "newline \<notin> set (join '' '' (map str_of_int (header_ints e)))"
  using header_tokens_ok by (rule join_no_newline)

lemma header_nonempty: "join '' '' (map str_of_int (header_ints e)) \<noteq> []"
  by (rule join_nonempty) (simp_all add: header_ints_def list_all_iff split: prod.splits)

lemma header_no_comment: "\<not> is_comment (join '' '' (map str_of_int (header_ints e)))"
proof -
  obtain n ns where "header_ints e = n # ns"
    by (cases "header_ints e") (auto simp: header_ints_def split: prod.splits)
  then have "\<exists>rest. join '' '' (map str_of_int (header_ints e)) = str_of_int n @ rest"
    by (simp add: join_def)
  then show ?thesis using str_of_int_no_comment by auto
qed

lemma event_lines:
  "serialize_event_lines e =
     join '' '' (map str_of_int (header_ints e)) # map (join '' '') (precipitation_per_timestep e)"
  by (simp only: serialize_event_lines_def header_line)

lemma parse_event_serialized:
  assumes "valid_event e"
  shows "parse_event_lines (serialize_event_lines e) = Inr e"
proof -
  from assms have dt: "valid_datetime (start_time e)"
    and rows: "list_all valid_row (precipitation_per_timestep e)"
    by (simp_all add: valid_event_def)
  have "map split_ws (map (join '' '') (precipitation_per_timestep e)) = precipitation_per_timestep e"
    using rows by (induction "precipitation_per_timestep e" arbitrary: e)
      (auto simp: valid_row_def split_ws_join list_all_iff intro!: map_idI)
  then show ?thesis
    by (simp add: event_lines parse_event_lines_def parse_header [OF dt])
qed

lemma takeWhile_rows:
  assumes "list_all (\<lambda>l. \<not> P l) rows" and "rest = [] \<or> P (hd rest)"
  shows "takeWhile (\<lambda>l. \<not> P l) (rows @ rest) = rows"
    and "dropWhile (\<lambda>l. \<not> P l) (rows @ rest) = rest"
  using assms by (induction rows) (auto simp: neq_Nil_conv takeWhile_eq_Nil_iff dropWhile_eq_self_iff)

lemma event_blocks_serialized:
  assumes "list_all valid_event es"
  shows "event_blocks (concat (map serialize_event_lines es)) = map serialize_event_lines es"
  using assms
proof (induction es)
  case Nil
  then show ?case by simp
next
  case (Cons e es)
  let ?rows = "map (join '' '') (precipitation_per_timestep e)"
  let ?rest = "concat (map serialize_event_lines es)"
  from Cons.prems have "list_all valid_row (precipitation_per_timestep e)"
    by (simp add: valid_event_def)
  then have nh: "list_all (\<lambda>l. \<not> is_header_line l) ?rows"
    by (simp add: list_all_iff valid_row_def)
  have hd: "?rest = [] \<or> is_header_line (hd ?rest)"
    by (cases es) (simp_all add: event_lines header_is_header)
  from Cons have IH: "event_blocks ?rest = map serialize_event_lines es" by simp
  show ?case
    by (simp add: event_lines [of e] takeWhile_rows [OF nh hd] IH)
qed

lemma parse_all_serialized:
  assumes "list_all valid_event es"
  shows "parse_all parse_event_lines (map serialize_event_lines es) = Inr es"
  using assms by (induction es) (simp_all add: parse_event_serialized)


subsection \<open>Documents, written and read back\<close>

lemma int_token_chars:
  assumes "is_int_token s" and "c \<in> set s"
  shows "is_digit c \<or> c = CHR ''-''"
  using assms
  by (cases s) (auto simp: is_int_token_def int_of_str_def list_all_iff split: if_splits)

lemma int_token_token: "is_int_token s \<Longrightarrow> is_token s"
proof -
  assume a: "is_int_token s"
  then have "s \<noteq> []" by (auto simp: is_int_token_def int_of_str_def)
  moreover have "\<not> is_space c" if "c \<in> set s" for c
    using int_token_chars [OF a that] is_digit_plain(1) [of c] by (auto simp: is_space_def)
  ultimately show ?thesis by (simp add: is_token_def list_all_iff)
qed

lemma int_token_no_comment: "is_int_token s \<Longrightarrow> \<not> is_comment (s @ rest)"
proof -
  assume a: "is_int_token s"
  then obtain c cs where s: "s = c # cs" by (cases s) (auto simp: is_int_token_def int_of_str_def)
  then have "c \<in> set s" by simp
  from int_token_chars [OF a this] is_digit_plain(3) [of c] have "c \<noteq> comment_marker"
    by (auto simp: comment_marker_def)
  with s show ?thesis by (simp add: is_comment_def)
qed

lemma two_digits_no_newline: "newline \<notin> set (two_digits n)"
  using is_digit_plain(4) [OF digit_char_props(1), of "nat n div 10 mod 10"]
        is_digit_plain(4) [OF digit_char_props(1), of "nat n mod 10"]
  by (simp add: two_digits_def)

lemma format_now_no_newline: "newline \<notin> set (format_now t)"
  by (simp add: format_now_def two_digits_no_newline) (simp add: newline_def)

lemma row_line:
  assumes "valid_row r"
  shows "newline \<notin> set (join '' '' r)" and "join '' '' r \<noteq> []" and "\<not> is_comment (join '' '' r)"
  using assms by (simp_all add: valid_row_def join_no_newline join_nonempty)

lemma event_line:
  assumes "valid_event e" and "l \<in> set (serialize_event_lines e)"
  shows "newline \<notin> set l \<and> l \<noteq> [] \<and> \<not> is_comment l"
proof (cases "l = join '' '' (map str_of_int (header_ints e))")
  case True
  then show ?thesis
    by (simp add: header_no_newline header_nonempty header_no_comment)
next
  case False
  with assms(2) obtain r where r: "r \<in> set (precipitation_per_timestep e)" and l: "l = join '' '' r"
    by (auto simp: event_lines)
  from assms(1) r have "valid_row r"
    by (simp add: valid_event_def list_all_iff)
  then show ?thesis
    using row_line [of r] l by simp
qed

lemma events_lines:
  assumes "list_all valid_event es" and "l \<in> set (concat (map serialize_event_lines es))"
  shows "newline \<notin> set l \<and> l \<noteq> [] \<and> \<not> is_comment l"
proof -
  from assms(2) obtain e where "e \<in> set es" and "l \<in> set (serialize_event_lines e)"
    by auto
  with assms(1) show ?thesis
    using event_line [of e l] by (simp add: list_all_iff)
qed

lemma events_nonempty:
  "es \<noteq> [] \<Longrightarrow> concat (map serialize_event_lines es) \<noteq> []"
  by (cases es) (simp_all add: serialize_event_lines_def)

lemma int_pair_line:
  assumes "is_int_token a" and "is_int_token b"
  shows "newline \<notin> set (a @ '' '' @ b)"
  using is_token_no_newline [OF int_token_token [OF assms(1)]]
    is_token_no_newline [OF int_token_token [OF assms(2)]]
  by (simp add: newline_def)

lemma comment_lines_no_newline:
  "newline \<notin> set ''*Name of this file: ''"
  "newline \<notin> set ''*Date and time of construction: ''"
  "newline \<notin> set ''*Comments are following an * (asterisk) and written above variables''"
  "newline \<notin> set ''*Number of stations''"
  "newline \<notin> set ''*Station Name''"
  "newline \<notin> set ''*Number_of_events seconds_per_timestamp''"
  "newline \<notin> set ''*Start datetime and number of timestamps in the format: yyyy#m#d:#h#m#s:#d#h#m#s''"
  "newline \<notin> set ''*Observations per timestamp (row) and per station (column)''"
  by (simp_all add: newline_def)

lemma serialize_lines_no_newline:
  assumes "valid_document d" and "newline \<notin> set location"
    and "l \<in> set (serialize_lines location now d)"
  shows "newline \<notin> set l"
proof -
  from assms(1) have names: "list_all is_token (p_name_of_stations d)"
    and evs: "list_all valid_event (p_precipitation_events d)"
    and ints: "is_int_token (p_default_dataset d)" "is_int_token (p_number_of_stations d)"
      "is_int_token (p_number_of_events d)" "is_int_token (p_seconds_per_timestep d)"
    by (simp_all add: valid_document_def)
  have head: "list_all (\<lambda>l. newline \<notin> set l)
     [''*Name of this file: '' @ location,
      ''*Date and time of construction: '' @ format_now now,
      ''*Comments are following an * (asterisk) and written above variables'',
      p_default_dataset d,
      ''*Number of stations'',
      p_number_of_stations d,
      ''*Station Name'',
      serialize_stations_ids (p_name_of_stations d),
      ''*Number_of_events seconds_per_timestamp'',
      p_number_of_events d @ '' '' @ p_seconds_per_timestep d,
      ''*Start datetime and number of timestamps in the format: yyyy#m#d:#h#m#s:#d#h#m#s'',
      ''*Observations per timestamp (row) and per station (column)'']"
    using assms(2) format_now_no_newline [of now] join_no_newline [OF names]
      is_token_no_newline [OF int_token_token [OF ints(1)]]
      is_token_no_newline [OF int_token_token [OF ints(2)]]
      int_pair_line [OF ints(3) ints(4)] comment_lines_no_newline
    by (simp only: list.pred_inject set_append Un_iff serialize_stations_ids_def simp_thms)
  from assms(3) have "l \<in> set (concat (map serialize_event_lines (p_precipitation_events d)))
      \<or> l \<in> set [''*Name of this file: '' @ location,
      ''*Date and time of construction: '' @ format_now now,
      ''*Comments are following an * (asterisk) and written above variables'',
      p_default_dataset d,
      ''*Number of stations'',
      p_number_of_stations d,
      ''*Station Name'',
      serialize_stations_ids (p_name_of_stations d),
      ''*Number_of_events seconds_per_timestamp'',
      p_number_of_events d @ '' '' @ p_seconds_per_timestep d,
      ''*Start datetime and number of timestamps in the format: yyyy#m#d:#h#m#s:#d#h#m#s'',
      ''*Observations per timestamp (row) and per station (column)'']"
    unfolding serialize_lines_def set_append Un_iff by blast
  then show ?thesis
  proof
    assume "l \<in> set (concat (map serialize_event_lines (p_precipitation_events d)))"
    then show ?thesis using events_lines [OF evs] by blast
  next
    assume "l \<in> set [''*Name of this file: '' @ location,
      ''*Date and time of construction: '' @ format_now now,
      ''*Comments are following an * (asterisk) and written above variables'',
      p_default_dataset d,
      ''*Number of stations'',
      p_number_of_stations d,
      ''*Station Name'',
      serialize_stations_ids (p_name_of_stations d),
      ''*Number_of_events seconds_per_timestamp'',
      p_number_of_events d @ '' '' @ p_seconds_per_timestep d,
      ''*Start datetime and number of timestamps in the format: yyyy#m#d:#h#m#s:#d#h#m#s'',
      ''*Observations per timestamp (row) and per station (column)'']"
    with head show ?thesis unfolding list_all_iff by blast
  qed
qed

lemma serialize_lines_last:
  assumes "valid_document d"
  shows "last (serialize_lines location now d) \<noteq> []"
proof -
  let ?ev = "concat (map serialize_event_lines (p_precipitation_events d))"
  from assms have n: "p_precipitation_events d \<noteq> []"
    and evs: "list_all valid_event (p_precipitation_events d)"
    by (simp_all add: valid_document_def)
  from n have ne: "?ev \<noteq> []" by (rule events_nonempty)
  have "last (serialize_lines location now d) = last ?ev"
    unfolding serialize_lines_def using ne by (rule last_appendR)
  moreover from ne have "last ?ev \<in> set ?ev" by (rule last_in_set)
  then have "last ?ev \<noteq> []" using events_lines [OF evs] by blast
  ultimately show ?thesis by simp
qed

lemma split_lines_serialized:
  assumes "valid_document d" and "newline \<notin> set location"
  shows "split_lines (BuiSerializer_serialize location now d) = serialize_lines location now d"
  unfolding BuiSerializer_serialize_def
  using serialize_lines_no_newline [OF assms] serialize_lines_last [OF assms(1)]
  by (intro split_lines_join) blast+

lemma filter_events:
  assumes "list_all valid_event es"
  shows "filter (\<lambda>l. \<not> is_comment l) (concat (map serialize_event_lines es))
           = concat (map serialize_event_lines es)"
  using events_lines [OF assms] by (simp add: filter_id_conv)

lemma tokenize_serialized:
  assumes "valid_document d" and "newline \<notin> set location"
  shows "tokenize_lines (BuiSerializer_serialize location now d) =
           p_default_dataset d # p_number_of_stations d
           # serialize_stations_ids (p_name_of_stations d)
           # (p_number_of_events d @ '' '' @ p_seconds_per_timestep d)
           # concat (map serialize_event_lines (p_precipitation_events d))"
proof -
  from assms(1) have evs: "list_all valid_event (p_precipitation_events d)"
    and names: "\<not> is_comment (serialize_stations_ids (p_name_of_stations d))"
    and ints: "is_int_token (p_default_dataset d)" "is_int_token (p_number_of_stations d)"
      "is_int_token (p_number_of_events d)"
    by (simp_all add: valid_document_def)
  have c: "is_comment (CHR ''*'' # s)" for s
    by (simp add: is_comment_def comment_marker_def)
  have i: "\<not> is_comment s" if "is_int_token s" for s
    using int_token_no_comment [OF that, of "[]"] by simp
  show ?thesis
    unfolding tokenize_lines_def split_lines_serialized [OF assms]
    using names int_token_no_comment [OF ints(3)] i [OF ints(1)] i [OF ints(2)]
    by (simp add: serialize_lines_def filter_events [OF evs] c)
qed

lemma parse_document_serialized:
  assumes "valid_document d" and "newline \<notin> set location"
  shows "parse_document_lines (tokenize_lines (BuiSerializer_serialize location now d)) = Inr d"
proof -
  from assms(1) have evs: "list_all valid_event (p_precipitation_events d)"
    and names: "list_all is_token (p_name_of_stations d)"
    and ne: "p_precipitation_events d \<noteq> []"
    and ints: "is_int_token (p_default_dataset d)" "is_int_token (p_number_of_stations d)"
      "is_int_token (p_number_of_events d)" "is_int_token (p_seconds_per_timestep d)"
    by (simp_all add: valid_document_def)
  have one: "split_ws s = [s]" if "is_int_token s" for s
    by (rule split_ws_one) (rule int_token_token [OF that])
  have two: "split_ws (p_number_of_events d @ '' '' @ p_seconds_per_timestep d)
      = [p_number_of_events d, p_seconds_per_timestep d]"
    by (rule split_ws_two) (rule int_token_token, rule ints)+
  have rec: "\<lparr>p_default_dataset = p_default_dataset d,
        p_number_of_stations = p_number_of_stations d,
        p_name_of_stations = p_name_of_stations d,
        p_number_of_events = p_number_of_events d,
        p_seconds_per_timestep = p_seconds_per_timestep d,
        p_precipitation_events = p_precipitation_events d\<rparr> = d"
    by simp
  show ?thesis
    unfolding tokenize_serialized [OF assms] parse_document_lines_def
    by (simp only: list.case one [OF ints(1)] one [OF ints(2)] two prod.case ints simp_thms
          events_nonempty [OF ne] if_True if_False event_blocks_serialized [OF evs]
          parse_all_serialized [OF evs] sum.case serialize_stations_ids_def
          split_ws_join [OF names] not_False_eq_True rec)
qed

lemma render_strs: "parse_all py_str (map StrV xs) = Inr xs"
  by (induction xs) (simp_all add: py_str_def)

lemma render_floats: "parse_all py_str (map FloatV xs) = Inr xs"
  by (induction xs) (simp_all add: py_str_def)

lemma render_rows:
  "parse_all (py_list py_str) (map (\<lambda>r. ListV (map StrV r)) rows) = Inr rows"
  "parse_all (py_list py_str) (map (\<lambda>r. ListV (map FloatV r)) rows) = Inr rows"
  by (induction rows) (simp_all add: py_list_def render_strs render_floats)

lemma render_event_fields: "render_event (DictV (event_fields e)) = Inr e"
  by (simp add: render_event_def event_fields_def py_key_def dict_get_def rows_value_def
      py_list_def render_rows)

lemma render_events:
  "parse_all render_event (map (\<lambda>e. DictV (event_fields e)) es) = Inr es"
  by (induction es) (simp_all add: render_event_fields)

lemma render_parsed: "render_document (parsed_fields d) = Inr d"
  by (simp add: render_document_def parsed_fields_def py_key_def dict_get_def py_str_def
      py_list_def render_strs render_events)

lemma get_value_event:
  "get_value (BuiPrecipitationEvent e) =
     DictV [(''start_time'', DateTimeV (start_time e)),
            (''timeseries_length'', TimeDeltaV (timeseries_length e)),
            (''precipitation_per_timestep'',
               ListV (map (\<lambda>r. ListV (map FloatV r)) (precipitation_per_timestep e)))]"
  by (simp add: BuiPrecipitationEvent_def comp_def)

lemma render_event_model: "render_event (get_value (BuiPrecipitationEvent e)) = Inr e"
  by (simp add: get_value_event render_event_def py_key_def dict_get_def py_list_def render_rows)

lemma render_event_models:
  "parse_all render_event (map (\<lambda>e. get_value (BuiPrecipitationEvent e)) es) = Inr es"
  by (induction es) (simp_all add: render_event_model)

lemma render_model: "render_document (BuiModel_dict d) = Inr (document_text d)"
  by (simp add: render_document_def BuiModel_dict_def BuiModel_fields_def document_text_def
      py_key_def dict_get_def py_str_def py_list_def render_strs render_event_models comp_def)

section \<open>Properties of the lifecycle\<close>

subsection \<open>Locations\<close>

lemmas path_defs = path_join_def absolute_def generate_name_def Path_def path_anchor_def
  path_parts_def path_str_def join_def

lemma path_examples:
  "path_join ''out'' (Path ''test.test'') = ''out/test.test''"
  "path_join ''out'' (Path ''root.test'') = ''out/root.test''"
  "path_join ''out'' (Path ''bui_file.bui'') = ''out/bui_file.bui''"
  "absolute ''/home'' ''out/test.test'' = ''/home/out/test.test''"
  "absolute ''/home'' ''out/root.test'' = ''/home/out/root.test''"
  "absolute ''/home'' ''out/bui_file.bui'' = ''/home/out/bui_file.bui''"
  "absolute ''/home'' ''/home/out/test.test'' = ''/home/out/test.test''"
  "path_join ''.'' (Path ''test.test'') = ''test.test''"
  "path_join ''/'' (Path ''test.test'') = ''/test.test''"
  "path_join ''out/'' (Path ''/tmp/x'') = ''/tmp/x''"
  by (simp_all add: path_defs)

subsection \<open>Field mappings\<close>

lemma dict_get_set: "dict_get (dict_set m k v) k' = (if k' = k then Some v else dict_get m k')"
  by (simp add: dict_get_def dict_set_def update_conv')

lemma distinct_dict_set: "distinct (map fst m) \<Longrightarrow> distinct (map fst (dict_set m k v))"
  by (simp add: dict_set_def distinct_update)

lemma dict_get_update:
  "distinct (map fst other) \<Longrightarrow>
   dict_get (dict_update m other) k =
     (case dict_get other k of Some v \<Rightarrow> Some v | None \<Rightarrow> dict_get m k)"
proof (induction other arbitrary: m)
  case Nil
  then show ?case by (simp add: dict_update_def dict_get_def)
next
  case (Cons kv other)
  have step: "dict_update m (kv # other) = dict_update (dict_set m (fst kv) (snd kv)) other"
    by (simp add: dict_update_def)
  from Cons.prems have d: "distinct (map fst other)" and nin: "fst kv \<notin> fst ` set other"
    by auto
  from nin have none: "dict_get other (fst kv) = None"
    by (simp add: dict_get_def map_of_eq_None_iff)
  have eq: "dict_get (dict_update m (kv # other)) k =
      (case dict_get other k of Some v \<Rightarrow> Some v
       | None \<Rightarrow> dict_get (dict_set m (fst kv) (snd kv)) k)"
    by (simp only: step Cons.IH [OF d])
  show ?case
  proof (cases "k = fst kv")
    case True
    then have "dict_get (kv # other) k = Some (snd kv)"
      by (cases kv) (simp add: dict_get_def)
    with True none eq show ?thesis
      by (simp add: dict_get_set)
  next
    case False
    then have "dict_get (kv # other) k = dict_get other k"
      by (cases kv) (simp add: dict_get_def)
    with False eq show ?thesis
      by (simp add: dict_get_set split: option.split)
  qed
qed

text \<open>
  C1 (as amended).  When a model is constructed with a location, the parsed mapping is
  produced first, the location is stored in it under \<^verbatim>\<open>filepath\<close>, and the result is
  merged on top of the explicitly supplied fields: in the mapping submitted to
  validation the location stands under \<^verbatim>\<open>filepath\<close>, every other field of the parsed
  mapping has its parsed value, and an explicit field keeps its value only where the
  parsed mapping has no field of that name.
\<close>

theorem init_parsed_fields_win:
  assumes "fmt_parser fmt (PathV p) = Inr data" and "distinct (map fst data)"
  shows "\<exists>m. FileModel_init_kwargs fmt (PathV p) kwargs = Inr m
           \<and> FileModel_init fmt base_init (PathV p) kwargs = base_init m
           \<and> (\<forall>k. dict_get m k =
                 (if k = ''filepath'' then Some (PathV p)
                  else case dict_get data k of Some v \<Rightarrow> Some v | None \<Rightarrow> dict_get kwargs k))"
  using assms
  by (simp add: FileModel_init_def FileModel_init_kwargs_def truthy_def dict_get_update
      distinct_dict_set dict_get_set)

text \<open>
  The claim as first stated, that the explicit value wins, fails: the file gives
  \<^verbatim>\<open>number_of_stations\<close> as 1, the caller as 2, and validation receives 1.
\<close>

theorem init_explicit_fields_lose:
  "FileModel_init_kwargs
     \<lparr>fmt_filename = ''bui_file'', fmt_ext = ''.bui'', fmt_serializer = no_serializer,
      fmt_parser = const_parser [(''number_of_stations'', StrV ''1'')]\<rparr>
     (PathV ''default.bui'') [(''number_of_stations'', StrV ''2'')]
   = Inr [(''number_of_stations'', StrV ''1''), (''filepath'', PathV ''default.bui'')]"
  by (simp add: FileModel_init_kwargs_def truthy_def const_parser_def dict_update_def dict_set_def)

theorem init_parsed_fields_win_witness:
  "\<exists>m. FileModel_init_kwargs
     \<lparr>fmt_filename = ''bui_file'', fmt_ext = ''.bui'', fmt_serializer = no_serializer,
      fmt_parser = const_parser [(''number_of_stations'', StrV ''1'')]\<rparr>
     (PathV ''default.bui'') [(''number_of_stations'', StrV ''2''), (''number_of_events'', StrV ''7'')] = Inr m
    \<and> dict_get m ''number_of_stations'' = Some (StrV ''1'')
    \<and> dict_get m ''number_of_events'' = Some (StrV ''7'')
    \<and> dict_get m ''filepath'' = Some (PathV ''default.bui'')"
proof -
  let ?fmt = "\<lparr>fmt_filename = ''bui_file'', fmt_ext = ''.bui'', fmt_serializer = no_serializer,
      fmt_parser = const_parser [(''number_of_stations'', StrV ''1'')]\<rparr>"
  have p: "fmt_parser ?fmt (PathV ''default.bui'') = Inr [(''number_of_stations'', StrV ''1'')]"
    by (simp add: const_parser_def)
  have d: "distinct (map fst [(''number_of_stations'', StrV ''1'')])" by simp
  from init_parsed_fields_win [OF p d, of "[(''number_of_stations'', StrV ''2''), (''number_of_events'', StrV ''7'')]" Inr]
  obtain m where m: "FileModel_init_kwargs ?fmt (PathV ''default.bui'') [(''number_of_stations'', StrV ''2''), (''number_of_events'', StrV ''7'')] = Inr m"
    and g: "\<forall>k. dict_get m k =
                 (if k = ''filepath'' then Some (PathV ''default.bui'')
                  else case dict_get [(''number_of_stations'', StrV ''1'')] k of Some v \<Rightarrow> Some v | None \<Rightarrow> dict_get [(''number_of_stations'', StrV ''2''), (''number_of_events'', StrV ''7'')] k)"
    by blast
  show ?thesis
    using m g by (simp add: dict_get_def)
qed

text \<open>
  C9.  A bare \<^verbatim>\<open>Path\<close> given where a \<^verbatim>\<open>FileModel\<close> is expected is not rejected:
  it is turned into the mapping \<^verbatim>\<open>{"filepath": value}\<close>, from which the class is
  constructed, and that construction loads the file: the parser is called on the path,
  its failure is the failure of the validation, and otherwise the model is built from
  the mapping that holds the path under \<^verbatim>\<open>filepath\<close> and, under every other name,
  what the parser read there.  The base validation alone refuses a \<^verbatim>\<open>Path\<close>.
\<close>

theorem validate_accepts_path:
  "FileModel_validate fmt base_init (Raw (PathV p))
     = pydantic_validate fmt base_init (Raw (DictV [(''filepath'', PathV p)]))
   \<and> (case fmt_parser fmt (PathV p) of
         Inl e \<Rightarrow> FileModel_validate fmt base_init (Raw (PathV p)) = Inl e
       | Inr data \<Rightarrow>
           distinct (map fst data) \<longrightarrow>
             (\<exists>m. FileModel_validate fmt base_init (Raw (PathV p)) = base_init m
                  \<and> (\<forall>k. dict_get m k =
                        (if k = ''filepath'' then Some (PathV p) else dict_get data k))))
   \<and> pydantic_validate fmt base_init (Raw (PathV p)) = Inl ValidationError"
proof -
  have v: "FileModel_validate fmt base_init (Raw (PathV p))
      = FileModel_init fmt base_init (PathV p) []"
    by (simp add: FileModel_validate_def pydantic_validate_def construct_from_dict_def
        dict_get_def)
  have 1: "FileModel_validate fmt base_init (Raw (PathV p))
     = pydantic_validate fmt base_init (Raw (DictV [(''filepath'', PathV p)]))"
    by (simp add: FileModel_validate_def)
  have 2: "FileModel_validate fmt base_init (Raw (PathV p)) = Inl e"
    if "fmt_parser fmt (PathV p) = Inl e" for e
    using that by (simp add: v FileModel_init_def FileModel_init_kwargs_def truthy_def)
  have 3: "\<exists>m. FileModel_validate fmt base_init (Raw (PathV p)) = base_init m
                  \<and> (\<forall>k. dict_get m k =
                        (if k = ''filepath'' then Some (PathV p) else dict_get data k))"
    if "fmt_parser fmt (PathV p) = Inr data" and "distinct (map fst data)" for data
  proof -
    let ?m = "dict_update [] (dict_set data ''filepath'' (PathV p))"
    have "FileModel_validate fmt base_init (Raw (PathV p)) = base_init ?m"
      using that(1) by (simp add: v FileModel_init_def FileModel_init_kwargs_def truthy_def)
    moreover have "dict_get ?m k = (if k = ''filepath'' then Some (PathV p) else dict_get data k)"
      for k
      using that(2)
      by (simp add: dict_get_update distinct_dict_set dict_get_set)
        (simp add: dict_get_def split: option.split)
    ultimately show ?thesis by blast
  qed
  have 4: "pydantic_validate fmt base_init (Raw (PathV p)) = Inl ValidationError"
    by (simp add: pydantic_validate_def dict_items_def py_iter_def)
  have 5: "case fmt_parser fmt (PathV p) of
         Inl e \<Rightarrow> FileModel_validate fmt base_init (Raw (PathV p)) = Inl e
       | Inr data \<Rightarrow>
           distinct (map fst data) \<longrightarrow>
             (\<exists>m. FileModel_validate fmt base_init (Raw (PathV p)) = base_init m
                  \<and> (\<forall>k. dict_get m k =
                        (if k = ''filepath'' then Some (PathV p) else dict_get data k)))"
  proof (cases "fmt_parser fmt (PathV p)")
    case (Inl e)
    from 2 [OF Inl] show ?thesis by (simp only: Inl sum.case)
  next
    case (Inr data)
    from 3 [OF Inr] show ?thesis by (simp only: Inr sum.case) blast
  qed
  from 1 5 4 show ?thesis by (intro conjI)
qed

theorem validate_accepts_path_witness:
  "\<exists>m. FileModel_validate
         \<lparr>fmt_filename = ''bui_file'', fmt_ext = ''.bui'', fmt_serializer = no_serializer,
          fmt_parser = const_parser [(''number_of_stations'', StrV ''1'')]\<rparr>
         Inr (Raw (PathV ''default.bui'')) = Inr m
       \<and> dict_get m ''filepath'' = Some (PathV ''default.bui'')
       \<and> dict_get m ''number_of_stations'' = Some (StrV ''1'')"
proof -
  let ?fmt = "\<lparr>fmt_filename = ''bui_file'', fmt_ext = ''.bui'', fmt_serializer = no_serializer,
      fmt_parser = const_parser [(''number_of_stations'', StrV ''1'')]\<rparr>"
  have p: "fmt_parser ?fmt (PathV ''default.bui'') = Inr [(''number_of_stations'', StrV ''1'')]"
    by (simp add: const_parser_def)
  from validate_accepts_path [of ?fmt Inr "''default.bui''", THEN conjunct2, THEN conjunct1]
  have "distinct (map fst [(''number_of_stations'', StrV ''1'')]) \<longrightarrow>
      (\<exists>m. FileModel_validate ?fmt Inr (Raw (PathV ''default.bui'')) = Inr m
          \<and> (\<forall>k. dict_get m k = (if k = ''filepath'' then Some (PathV ''default.bui'')
                  else dict_get [(''number_of_stations'', StrV ''1'')] k)))"
    by (simp only: p sum.case)
  then obtain m where m: "FileModel_validate ?fmt Inr (Raw (PathV ''default.bui'')) = Inr m"
    and g: "\<forall>k. dict_get m k = (if k = ''filepath'' then Some (PathV ''default.bui'')
                  else dict_get [(''number_of_stations'', StrV ''1'')] k)"
    by auto
  show ?thesis
    using m g by (simp add: dict_get_def)
qed

subsection \<open>What saving changes\<close>

lemma bind_location_idem [simp]:
  "bind_location fmt' folder (bind_location fmt folder obj) = bind_location fmt folder obj"
  by (simp add: bind_location_def split: option.splits)

lemma bind_location_format [simp]: "obj_format (bind_location fmt folder obj) = obj_format obj"
  by (simp add: bind_location_def split: option.splits)

lemma bind_location_fields [simp]: "obj_fields (bind_location fmt folder obj) = obj_fields obj"
  by (simp add: bind_location_def split: option.splits)

lemma bind_location_bound:
  "filepath obj = Some p \<Longrightarrow> bind_location fmt folder obj = obj"
  by (simp add: bind_location_def)

lemma bind_location_filepath:
  "filepath (bind_location fmt folder obj) =
     Some (case filepath obj of None \<Rightarrow> path_join folder (generate_name fmt) | Some p \<Rightarrow> p)"
  by (simp add: bind_location_def split: option.splits)

lemma bound_from_refl: "bound_from fmts folder h h"
  by (simp add: bound_from_def split: option.splits)

lemma bound_from_trans:
  assumes "bound_from fmts folder h h'" and "bound_from fmts folder h' h''"
  shows "bound_from fmts folder h h''"
  unfolding bound_from_def
proof
  fix b
  show "case h b of None \<Rightarrow> h'' b = None
        | Some obj \<Rightarrow> h'' b = Some obj \<or> h'' b = Some (bind_location (fmts (obj_format obj)) folder obj)"
  proof (cases "h b")
    case None
    with assms show ?thesis
      by (auto simp: bound_from_def split: option.splits dest!: spec [of _ b])
  next
    case (Some obj)
    with assms(1) have "h' b = Some obj \<or> h' b = Some (bind_location (fmts (obj_format obj)) folder obj)"
      by (auto simp: bound_from_def split: option.splits dest!: spec [of _ b])
    then show ?thesis
    proof
      assume "h' b = Some obj"
      with assms(2) Some show ?thesis
        by (auto simp: bound_from_def split: option.splits dest!: spec [of _ b])
    next
      assume "h' b = Some (bind_location (fmts (obj_format obj)) folder obj)"
      with assms(2) Some show ?thesis
        by (auto simp: bound_from_def split: option.splits dest!: spec [of _ b])
    qed
  qed
qed

lemma bound_from_bind:
  "h a = Some obj \<Longrightarrow> bound_from fmts folder h (h(a \<mapsto> bind_location (fmts (obj_format obj)) folder obj))"
  by (simp add: bound_from_def split: option.splits)

lemma save_step_refl: "save_step fmts folder w w"
  by (simp add: save_step_def bound_from_refl)

lemma take_prefix_trans:
  assumes "take (length xs) ys = xs" and "take (length ys) zs = ys"
  shows "take (length xs) zs = xs"
proof -
  from assms(1) have "length xs = min (length ys) (length xs)"
    by (metis length_take)
  then have le: "length xs \<le> length ys" by simp
  have "take (length xs) zs = take (length xs) (take (length ys) zs)"
    using le by (simp add: min_def)
  with assms show ?thesis by simp
qed

lemma save_step_trans:
  assumes "save_step fmts folder w w'" and "save_step fmts folder w' w''"
  shows "save_step fmts folder w w''"
proof -
  from assms have "bound_from fmts folder (heap w) (heap w'')"
    unfolding save_step_def by (blast intro: bound_from_trans)
  moreover from assms have "take (length (written w)) (written w'') = written w"
    unfolding save_step_def by (blast intro: take_prefix_trans)
  moreover from assms have "clock w'' = clock w" and "cwd w'' = cwd w"
    unfolding save_step_def by simp_all
  ultimately show ?thesis
    by (simp add: save_step_def)
qed

lemma save_children_step:
  assumes "\<And>w c. save_step fmts folder w (snd (sv w c))"
  shows "save_step fmts folder w (snd (save_children sv w fs acc))"
proof (induction fs arbitrary: w acc)
  case Nil
  then show ?case by (simp add: save_step_refl)
next
  case (Cons f fs)
  obtain name fv where f: "f = (name, fv)" by (cases f)
  show ?case
  proof (cases fv)
    case (Plain v)
    with f Cons show ?thesis by simp
  next
    case (Child c)
    obtain r w' where sv: "sv w c = (r, w')" by (cases "sv w c")
    with assms [of w c] have st: "save_step fmts folder w w'" by simp
    show ?thesis
    proof (cases r)
      case (Inl e)
      with f Child sv st show ?thesis by simp
    next
      case (Inr loc)
      have "save_step fmts folder w' (snd (save_children sv w' fs (dict_set acc name (StrV loc))))"
        by (rule Cons.IH)
      with st have "save_step fmts folder w (snd (save_children sv w' fs (dict_set acc name (StrV loc))))"
        by (rule save_step_trans)
      with f Child sv Inr show ?thesis by simp
    qed
  qed
qed

lemma save_step_save: "save_step fmts folder w (snd (save fmts n folder w a))"
proof (induction n arbitrary: w a)
  case 0
  then show ?case by (simp add: save_step_refl)
next
  case (Suc n)
  show ?case
  proof (cases "heap w a")
    case None
    then show ?thesis by (simp add: save_step_refl)
  next
    case (Some obj)
    define w1 where "w1 = w\<lparr>heap := (heap w)(a \<mapsto> bind_location (fmts (obj_format obj)) folder obj)\<rparr>"
    have s1: "save_step fmts folder w w1"
      using Some by (simp add: w1_def save_step_def bound_from_bind)
    obtain r w2 where ch: "save_children (save fmts n folder) w1 (obj_fields obj) [] = (r, w2)"
      by (cases "save_children (save fmts n folder) w1 (obj_fields obj) []")
    have "save_step fmts folder w1 (snd (save_children (save fmts n folder) w1 (obj_fields obj) []))"
      by (rule save_children_step) (rule Suc.IH)
    with ch have s2: "save_step fmts folder w1 w2" by simp
    from s1 s2 have s12: "save_step fmts folder w w2" by (rule save_step_trans)
    have s3: "save_step fmts folder w2 (w2\<lparr>written := written w2 @ ws\<rparr>)" for ws
      by (simp add: save_step_def bound_from_refl)
    have "snd (save fmts (Suc n) folder w a) = w2 \<or> (\<exists>ws. snd (save fmts (Suc n) folder w a) = w2\<lparr>written := written w2 @ ws\<rparr>)"
      using Some ch by (auto simp: w1_def Let_def split: sum.splits option.splits)
    then show ?thesis
    proof
      assume "snd (save fmts (Suc n) folder w a) = w2"
      with s12 show ?thesis by simp
    next
      assume "\<exists>ws. snd (save fmts (Suc n) folder w a) = w2\<lparr>written := written w2 @ ws\<rparr>"
      then obtain ws where "snd (save fmts (Suc n) folder w a) = w2\<lparr>written := written w2 @ ws\<rparr>" ..
      with save_step_trans [OF s12 s3 [of ws]] show ?thesis by simp
    qed
  qed
qed


lemma save_Suc_from_bound:
  assumes "heap w a = Some obj"
  shows "save_step fmts folder
           (w\<lparr>heap := (heap w)(a \<mapsto> bind_location (fmts (obj_format obj)) folder obj)\<rparr>)
           (snd (save fmts (Suc n) folder w a))"
proof -
  define w1 where "w1 = w\<lparr>heap := (heap w)(a \<mapsto> bind_location (fmts (obj_format obj)) folder obj)\<rparr>"
  obtain r w2 where ch: "save_children (save fmts n folder) w1 (obj_fields obj) [] = (r, w2)"
    by (cases "save_children (save fmts n folder) w1 (obj_fields obj) []")
  have "save_step fmts folder w1 (snd (save_children (save fmts n folder) w1 (obj_fields obj) []))"
    by (rule save_children_step) (rule save_step_save)
  with ch have s2: "save_step fmts folder w1 w2" by simp
  have s3: "save_step fmts folder w2 (w2\<lparr>written := written w2 @ ws\<rparr>)" for ws
    by (simp add: save_step_def bound_from_refl)
  have "snd (save fmts (Suc n) folder w a) = w2
        \<or> (\<exists>ws. snd (save fmts (Suc n) folder w a) = w2\<lparr>written := written w2 @ ws\<rparr>)"
    using assms ch by (auto simp: w1_def Let_def split: sum.splits option.splits)
  then show ?thesis
    unfolding w1_def [symmetric]
  proof
    assume "snd (save fmts (Suc n) folder w a) = w2"
    with s2 show "save_step fmts folder w1 (snd (save fmts (Suc n) folder w a))" by simp
  next
    assume "\<exists>ws. snd (save fmts (Suc n) folder w a) = w2\<lparr>written := written w2 @ ws\<rparr>"
    then obtain ws where "snd (save fmts (Suc n) folder w a) = w2\<lparr>written := written w2 @ ws\<rparr>" ..
    with save_step_trans [OF s2 s3 [of ws]]
    show "save_step fmts folder w1 (snd (save fmts (Suc n) folder w a))" by simp
  qed
qed

lemma save_step_bound_object:
  assumes "save_step fmts folder w w'" and "heap w b = Some obj" and "filepath obj = Some p"
  shows "heap w' b = Some obj"
  using assms
  by (auto simp: save_step_def bound_from_def bind_location_bound split: option.splits
      dest!: spec [of _ b])

text \<open>
  C10.  \<^verbatim>\<open>save\<close> changes no field of the entity other than \<^verbatim>\<open>filepath\<close>, and
  \<^verbatim>\<open>filepath\<close> only when it was absent: it is then the target folder joined with the
  format's default file name and extension.  (A call that the interpreter's stack no
  longer admits changes nothing.)  The same holds for every other object of the store.
\<close>

theorem save_frame:
  assumes "heap w a = Some obj"
  shows "heap (snd (save fmts n folder w a)) a =
           Some (obj\<lparr>filepath :=
                   (case filepath obj of
                      Some p \<Rightarrow> Some p
                    | None \<Rightarrow> if n = 0 then None
                              else Some (path_join folder (generate_name (fmts (obj_format obj)))))\<rparr>)
         \<and> save_step fmts folder w (snd (save fmts n folder w a))"
proof (cases n)
  case 0
  with assms show ?thesis
    by (simp add: save_step_refl split: option.splits)
next
  case (Suc k)
  let ?b = "bind_location (fmts (obj_format obj)) folder obj"
  let ?w1 = "w\<lparr>heap := (heap w)(a \<mapsto> ?b)\<rparr>"
  obtain p where p: "filepath ?b = Some p"
    by (simp add: bind_location_filepath)
  have "save_step fmts folder ?w1 (snd (save fmts (Suc k) folder w a))"
    using assms by (rule save_Suc_from_bound)
  moreover have "heap ?w1 a = Some ?b" by simp
  ultimately have "heap (snd (save fmts (Suc k) folder w a)) a = Some ?b"
    using p by (rule save_step_bound_object)
  moreover have "?b = obj\<lparr>filepath :=
                   (case filepath obj of
                      Some p \<Rightarrow> Some p
                    | None \<Rightarrow> Some (path_join folder (generate_name (fmts (obj_format obj)))))\<rparr>"
    by (simp add: bind_location_def split: option.splits)
  ultimately show ?thesis
    using Suc save_step_save [of fmts folder w n a] by (simp del: save.simps)
qed

theorem save_frame_witness:
  "heap \<lparr>heap = [0 \<mapsto> \<lparr>obj_format = ''leaf'', filepath = None, obj_fields = [(''v'', Plain (StrV ''one''))]\<rparr>],
          written = [], clock = example_clock, cwd = ''/home''\<rparr> 0
     = Some \<lparr>obj_format = ''leaf'', filepath = None, obj_fields = [(''v'', Plain (StrV ''one''))]\<rparr>
   \<and> heap (snd (save test_formats (Suc 0) ''out''
         \<lparr>heap = [0 \<mapsto> \<lparr>obj_format = ''leaf'', filepath = None, obj_fields = [(''v'', Plain (StrV ''one''))]\<rparr>],
          written = [], clock = example_clock, cwd = ''/home''\<rparr> 0)) 0
     = Some \<lparr>obj_format = ''leaf'', filepath = Some ''out/test.test'', obj_fields = [(''v'', Plain (StrV ''one''))]\<rparr>"
  using save_frame [of "\<lparr>heap = [0 \<mapsto> \<lparr>obj_format = ''leaf'', filepath = None, obj_fields = [(''v'', Plain (StrV ''one''))]\<rparr>],
          written = [], clock = example_clock, cwd = ''/home''\<rparr>" 0
          "\<lparr>obj_format = ''leaf'', filepath = None, obj_fields = [(''v'', Plain (StrV ''one''))]\<rparr>" test_formats "Suc 0" "''out''"]
  by (simp add: test_formats_def test_format_def generate_name_def path_examples del: save.simps)


subsection \<open>What a returning save has done\<close>


lemma save_step_written:
  assumes "save_step fmts folder w w'"
  shows "written w' = written w @ drop (length (written w)) (written w')"
proof -
  from assms have "take (length (written w)) (written w') = written w"
    by (simp add: save_step_def)
  then show ?thesis by (metis append_take_drop_id)
qed









lemma child_fields_mem: "(name, c) \<in> set (child_fields fs) \<longleftrightarrow> (name, Child c) \<in> set fs"
  by (induction fs rule: child_fields.induct) auto


lemma location_of_written [simp]: "location_of (w\<lparr>written := ws\<rparr>) c = location_of w c"
  by (simp add: location_of_def split: option.splits)

lemma child_locations_written [simp]:
  "child_locations (w\<lparr>written := ws\<rparr>) fs = child_locations w fs"
  by (simp add: child_locations_def)

lemma save_0: "save fmts 0 folder w a = (Inl RecursionError, w)"
  by simp

lemma resolved_bind:
  "filepath (bind_location fmt folder obj) = Some (resolved_location fmt folder obj)"
  by (simp add: bind_location_filepath resolved_location_def)

lemma resolved_location_bind [simp]:
  "resolved_location fmt' folder' (bind_location fmt folder obj) = resolved_location fmt folder obj"
  by (simp add: resolved_location_def bind_location_def split: option.splits)









lemma within_depth_step:
  assumes "save_step fmts folder w w'"
  shows "within_depth (heap w') k a = within_depth (heap w) k a"
proof (induction k arbitrary: a)
  case 0
  show ?case by simp
next
  case (Suc k)
  from assms have "case heap w a of None \<Rightarrow> heap w' a = None
     | Some obj \<Rightarrow> heap w' a = Some obj
         \<or> heap w' a = Some (bind_location (fmts (obj_format obj)) folder obj)"
    by (simp add: save_step_def bound_from_def)
  moreover have "within_depth (heap w') k = within_depth (heap w) k"
    by (rule ext) (rule Suc.IH)
  ultimately show ?case
    by (auto split: option.splits)
qed

lemma save_children_returns:
  assumes sv_step: "\<And>v c. save_step fmts folder v (snd (sv v c))"
    and sv_ret: "\<And>v c. save_step fmts folder w0 v \<Longrightarrow> c \<in> snd ` set (child_fields fs0)
                   \<Longrightarrow> \<exists>loc v'. sv v c = (Inr loc, v')"
    and "save_step fmts folder w0 w" and "set (child_fields fs) \<subseteq> set (child_fields fs0)"
  shows "\<exists>m w'. save_children sv w fs acc = (Inr m, w')"
  using assms(3,4)
proof (induction fs arbitrary: w acc)
  case Nil
  show ?case by simp
next
  case (Cons f fs)
  obtain name fv where f: "f = (name, fv)" by (cases f)
  show ?case
  proof (cases fv)
    case (Plain v)
    with f Cons show ?thesis by simp
  next
    case (Child c)
    with f Cons.prems(2) have mem: "c \<in> snd ` set (child_fields fs0)" by force
    from sv_ret [OF Cons.prems(1) mem] obtain loc w1 where c: "sv w c = (Inr loc, w1)" by blast
    from sv_step [of w c] c have "save_step fmts folder w w1" by simp
    with Cons.prems(1) have s: "save_step fmts folder w0 w1" by (rule save_step_trans)
    from Cons.prems(2) f Child have sub: "set (child_fields fs) \<subseteq> set (child_fields fs0)"
      by simp
    from Cons.IH [OF s sub, of "dict_set acc name (StrV loc)"] f Child c
    show ?thesis by simp
  qed
qed

lemma save_returns:
  assumes "within_depth (heap w) k a" and "k \<le> n" and "serializers_succeed fmts"
  shows "\<exists>loc w'. save fmts n folder w a = (Inr loc, w')"
  using assms(1,2)
proof (induction k arbitrary: n w a)
  case 0
  then show ?case by simp
next
  case (Suc k)
  from Suc.prems(2) obtain n' where n: "n = Suc n'" and le: "k \<le> n'" by (cases n) auto
  from Suc.prems(1) obtain obj where obj: "heap w a = Some obj"
    and deep: "list_all (\<lambda>(name, c). within_depth (heap w) k c) (child_fields (obj_fields obj))"
    by (auto split: option.splits)
  let ?fmt = "fmts (obj_format obj)"
  let ?b = "bind_location ?fmt folder obj"
  define w1 where "w1 = w\<lparr>heap := (heap w)(a \<mapsto> ?b)\<rparr>"
  have s1: "save_step fmts folder w w1"
    using obj by (simp add: w1_def save_step_def bound_from_bind)
  have "\<exists>m w2. save_children (save fmts n' folder) w1 (obj_fields obj) [] = (Inr m, w2)"
  proof (rule save_children_returns [where ?w0.0 = w1 and ?fs0.0 = "obj_fields obj"
        and fmts = fmts and folder = folder])
    show "save_step fmts folder v (snd (save fmts n' folder v c))" for v c
      by (rule save_step_save)
    show "\<exists>loc v'. save fmts n' folder v c = (Inr loc, v')"
      if st: "save_step fmts folder w1 v" and mem: "c \<in> snd ` set (child_fields (obj_fields obj))"
      for v c
    proof -
      from s1 st have "save_step fmts folder w v" by (rule save_step_trans)
      then have "within_depth (heap v) k c = within_depth (heap w) k c"
        by (rule within_depth_step)
      moreover from deep mem have "within_depth (heap w) k c"
        by (auto simp: list_all_iff)
      ultimately have "within_depth (heap v) k c" by simp
      from Suc.IH [OF this le] show ?thesis .
    qed
    show "save_step fmts folder w1 w1" by (rule save_step_refl)
    show "set (child_fields (obj_fields obj)) \<subseteq> set (child_fields (obj_fields obj))" by simp
  qed
  then obtain m w2 where ch: "save_children (save fmts n' folder) w1 (obj_fields obj) [] = (Inr m, w2)"
    by blast
  have "save_step fmts folder w1 (snd (save_children (save fmts n' folder) w1 (obj_fields obj) []))"
    by (rule save_children_step) (rule save_step_save)
  with ch have s2: "save_step fmts folder w1 w2" by simp
  have fp: "filepath ?b = Some (resolved_location ?fmt folder obj)" by (rule resolved_bind)
  have "heap w1 a = Some ?b" by (simp add: w1_def)
  with s2 have self: "heap w2 a = Some ?b" using fp by (rule save_step_bound_object)
  from assms(3) obtain out where
    "fmt_serializer ?fmt (clock w2) (resolved_location ?fmt folder obj) (save_data m ?b) = Inr out"
    unfolding serializers_succeed_def serializer_raises_def
    by (cases "fmt_serializer ?fmt (clock w2) (resolved_location ?fmt folder obj) (save_data m ?b)")
      auto
  with obj ch self fp show ?case
    by (simp add: n w1_def [symmetric] Let_def)
qed











text \<open>The example graph, saved.\<close>

lemmas example_defs = example_graph_def example_formats_def test_format_def no_serializer_def
  bind_location_def generate_name_def path_examples save_data_def dict_update_def
  dict_set_def example_clock_def

lemma example_save:
  "save example_formats 2 ''out'' example_graph 0 =
     (Inr ''/home/out/root.test'', snd (save example_formats 2 ''out'' example_graph 0))"
  by (rule prod_eqI) (simp_all add: numeral_2_eq_2 example_defs)




subsection \<open>Cycles\<close>




















subsection \<open>Saving twice\<close>

lemma bound_fromD:
  assumes "bound_from fmts folder h h'"
  shows "case h b of None \<Rightarrow> h' b = None
         | Some obj \<Rightarrow> h' b = Some obj
             \<or> h' b = Some (bind_location (fmts (obj_format obj)) folder obj)"
  using assms by (simp add: bound_from_def)

lemma bind_location_None: "filepath (bind_location fmt folder obj) \<noteq> None"
  by (simp add: bind_location_filepath)

lemma merge_same:
  assumes "bound_from fmts folder hw hv"
  shows "merge_heap hv hw = hv"
proof
  fix b
  from bound_fromD [OF assms, of b] show "merge_heap hv hw b = hv b"
    by (auto simp: merge_heap_def bind_location_None split: option.splits)
qed

lemma merge_comp:
  assumes "bound_from fmts folder hw hv" and "bound_from fmts folder hw hw1"
    and "bound_from fmts folder hw1 hw'"
  shows "merge_heap (merge_heap hv hw1) hw' = merge_heap hv hw'"
proof
  fix b
  from bound_fromD [OF assms(1), of b] bound_fromD [OF assms(2), of b]
    bound_fromD [OF assms(3), of b]
  show "merge_heap (merge_heap hv hw1) hw' b = merge_heap hv hw' b"
    by (auto simp: merge_heap_def bind_location_None bind_location_bound split: option.splits)
qed

lemma bound_from_merge:
  assumes "bound_from fmts folder hw hv" and "bound_from fmts folder hw hw'"
  shows "bound_from fmts folder hw' (merge_heap hv hw')"
  unfolding bound_from_def
proof
  fix b
  from bound_fromD [OF assms(1), of b] bound_fromD [OF assms(2), of b]
  show "case hw' b of None \<Rightarrow> merge_heap hv hw' b = None
        | Some obj \<Rightarrow> merge_heap hv hw' b = Some obj
            \<or> merge_heap hv hw' b = Some (bind_location (fmts (obj_format obj)) folder obj)"
    by (auto simp: merge_heap_def bind_location_None bind_location_bound split: option.splits)
qed

lemma reran_refl:
  assumes "later_world fmts folder w v"
  shows "reran fmts w w v v"
proof -
  from assms have "bound_from fmts folder (heap w) (heap v)" by (simp add: later_world_def)
  then have "merge_heap (heap v) (heap w) = heap v" by (rule merge_same)
  then show ?thesis by (simp add: reran_def serializer_calls_def)
qed

lemma later_world_after:
  assumes "later_world fmts folder w v" and "save_step fmts folder w w'" and "reran fmts w w' v v'"
  shows "later_world fmts folder w' v'"
proof -
  from assms(1) have b: "bound_from fmts folder (heap w) (heap v)" by (simp add: later_world_def)
  from assms(2) have b': "bound_from fmts folder (heap w) (heap w')" by (simp add: save_step_def)
  have "bound_from fmts folder (heap w') (merge_heap (heap v) (heap w'))"
    using b b' by (rule bound_from_merge)
  with assms show ?thesis
    by (simp add: later_world_def save_step_def reran_def)
qed

lemma drop_prefix_comp:
  assumes "take (length xs) ys = xs" and "take (length ys) zs = ys"
  shows "drop (length xs) zs = drop (length xs) ys @ drop (length ys) zs"
proof -
  from assms(1) have ys: "ys = xs @ drop (length xs) ys" by (metis append_take_drop_id)
  from assms(2) have zs: "zs = ys @ drop (length ys) zs" by (metis append_take_drop_id)
  define X where "X = drop (length xs) ys"
  define Y where "Y = drop (length ys) zs"
  from ys have ys': "ys = xs @ X" by (simp add: X_def)
  from zs have zs': "zs = ys @ Y" by (simp add: Y_def)
  show ?thesis
    unfolding X_def [symmetric] Y_def [symmetric] by (simp add: zs' ys')
qed

lemma reran_trans:
  assumes lw: "later_world fmts folder w v"
    and s1: "save_step fmts folder w w1" and s2: "save_step fmts folder w1 w'"
    and r1: "reran fmts w w1 v v1" and r2: "reran fmts w1 w' v1 v'"
  shows "reran fmts w w' v v'"
proof -
  from lw have b: "bound_from fmts folder (heap w) (heap v)" by (simp add: later_world_def)
  from s1 have b1: "bound_from fmts folder (heap w) (heap w1)" and c1: "clock w1 = clock w"
    and t1: "take (length (written w)) (written w1) = written w"
    by (simp_all add: save_step_def)
  from s2 have b2: "bound_from fmts folder (heap w1) (heap w')"
    and t2: "take (length (written w1)) (written w') = written w1"
    by (simp_all add: save_step_def)
  from r1 have hv1: "heap v1 = merge_heap (heap v) (heap w1)" and cv1: "clock v1 = clock v"
    and cw1: "cwd v1 = cwd v" and tv1: "take (length (written v)) (written v1) = written v"
    and sc1: "serializer_calls (drop (length (written v)) (written v1))
          = serializer_calls (drop (length (written w)) (written w1))"
    and eq1: "same_text fmts (clock w) (clock v) \<Longrightarrow>
        drop (length (written v)) (written v1) = drop (length (written w)) (written w1)"
    by (simp_all add: reran_def split: if_splits)
  from r2 have hv': "heap v' = merge_heap (heap v1) (heap w')" and cv': "clock v' = clock v1"
    and cw': "cwd v' = cwd v1" and tv': "take (length (written v1)) (written v') = written v1"
    and sc2: "serializer_calls (drop (length (written v1)) (written v'))
          = serializer_calls (drop (length (written w1)) (written w'))"
    and eq2: "same_text fmts (clock w1) (clock v1) \<Longrightarrow>
        drop (length (written v1)) (written v') = drop (length (written w1)) (written w')"
    by (simp_all add: reran_def split: if_splits)
  have dv: "drop (length (written v)) (written v')
      = drop (length (written v)) (written v1) @ drop (length (written v1)) (written v')"
    using tv1 tv' by (rule drop_prefix_comp)
  have dw: "drop (length (written w)) (written w')
      = drop (length (written w)) (written w1) @ drop (length (written w1)) (written w')"
    using t1 t2 by (rule drop_prefix_comp)
  have "heap v' = merge_heap (heap v) (heap w')"
    using hv' hv1 merge_comp [OF b b1 b2] by simp
  moreover have "take (length (written v)) (written v') = written v"
    using tv1 tv' by (rule take_prefix_trans)
  moreover have "serializer_calls (drop (length (written v)) (written v'))
          = serializer_calls (drop (length (written w)) (written w'))"
    using sc1 sc2 by (simp add: dv dw serializer_calls_def)
  moreover have "drop (length (written v)) (written v') = drop (length (written w)) (written w')"
    if "same_text fmts (clock w) (clock v)"
    using eq1 [OF that] eq2 that cv1 c1 by (simp add: dv dw)
  ultimately show ?thesis
    using cv1 cv' cw1 cw' by (simp add: reran_def)
qed


lemma save_children_sim:
  assumes sim: "\<And>w v a r w'. sv w a = (r, w') \<Longrightarrow> later_world fmts folder w v
                  \<Longrightarrow> \<exists>v'. sv v a = (r, v') \<and> reran fmts w w' v v'"
    and step: "\<And>w c. save_step fmts folder w (snd (sv w c))"
    and "save_children sv w fs acc = (r, w')" and "later_world fmts folder w v"
  shows "\<exists>v'. save_children sv v fs acc = (r, v') \<and> reran fmts w w' v v'"
  using assms(3,4)
proof (induction fs arbitrary: w v acc)
  case Nil
  then show ?case by (auto intro: reran_refl)
next
  case (Cons f fs)
  obtain name fv where f: "f = (name, fv)" by (cases f)
  show ?case
  proof (cases fv)
    case (Plain x)
    with f Cons.prems have "save_children sv w fs acc = (r, w')" by simp
    from Cons.IH [OF this Cons.prems(2)] f Plain show ?thesis by simp
  next
    case (Child c)
    obtain rc w1 where c: "sv w c = (rc, w1)" by (cases "sv w c")
    from sim [OF c Cons.prems(2)] obtain v1 where cv: "sv v c = (rc, v1)"
      and r1: "reran fmts w w1 v v1" by blast
    from step [of w c] c have s1: "save_step fmts folder w w1" by simp
    show ?thesis
    proof (cases rc)
      case (Inl e)
      with f Child c Cons.prems(1) have "r = Inl e" and "w' = w1" by simp_all
      with f Child cv Inl r1 show ?thesis by simp
    next
      case (Inr loc)
      with f Child c Cons.prems(1)
      have rest: "save_children sv w1 fs (dict_set acc name (StrV loc)) = (r, w')" by simp
      have l1: "later_world fmts folder w1 v1"
        using Cons.prems(2) s1 r1 by (rule later_world_after)
      from Cons.IH [OF rest l1] obtain v' where
        restv: "save_children sv v1 fs (dict_set acc name (StrV loc)) = (r, v')"
        and r2: "reran fmts w1 w' v1 v'" by blast
      have "save_step fmts folder w1 (snd (save_children sv w1 fs (dict_set acc name (StrV loc))))"
        using step by (rule save_children_step)
      with rest have s2: "save_step fmts folder w1 w'" by simp
      have "reran fmts w w' v v'"
        using Cons.prems(2) s1 s2 r1 r2 by (rule reran_trans)
      with f Child cv Inr restv show ?thesis by simp
    qed
  qed
qed

lemma reran_bind:
  assumes lw: "later_world fmts folder w v" and ow: "heap w a = Some ow" and ov: "heap v a = Some ov"
  shows "bind_location (fmts (obj_format ov)) folder ov = bind_location (fmts (obj_format ow)) folder ow
    \<and> obj_fields ov = obj_fields ow \<and> obj_format ov = obj_format ow
    \<and> reran fmts w (w\<lparr>heap := (heap w)(a \<mapsto> bind_location (fmts (obj_format ow)) folder ow)\<rparr>)
          v (v\<lparr>heap := (heap v)(a \<mapsto> bind_location (fmts (obj_format ow)) folder ow)\<rparr>)"
proof -
  from lw have b: "bound_from fmts folder (heap w) (heap v)" by (simp add: later_world_def)
  from bound_fromD [OF b, of a] ow ov
  have cases: "ov = ow \<or> ov = bind_location (fmts (obj_format ow)) folder ow" by simp
  then have 1: "bind_location (fmts (obj_format ov)) folder ov
      = bind_location (fmts (obj_format ow)) folder ow" by auto
  from cases have 2: "obj_fields ov = obj_fields ow" and 3: "obj_format ov = obj_format ow"
    by auto
  let ?b = "bind_location (fmts (obj_format ow)) folder ow"
  have "(heap v)(a \<mapsto> ?b) = merge_heap (heap v) ((heap w)(a \<mapsto> ?b))"
  proof
    fix x
    show "((heap v)(a \<mapsto> ?b)) x = merge_heap (heap v) ((heap w)(a \<mapsto> ?b)) x"
    proof (cases "x = a")
      case True
      with ov cases show ?thesis
        by (auto simp: merge_heap_def bind_location_bound split: option.splits)
    next
      case False
      have "merge_heap (heap v) (heap w) x = heap v x"
        using merge_same [OF b] by simp
      with False show ?thesis by (simp add: merge_heap_def split: option.splits)
    qed
  qed
  then have "reran fmts w (w\<lparr>heap := (heap w)(a \<mapsto> ?b)\<rparr>) v (v\<lparr>heap := (heap v)(a \<mapsto> ?b)\<rparr>)"
    by (simp add: reran_def serializer_calls_def)
  with 1 2 3 show ?thesis by simp
qed

lemma reran_write:
  assumes "later_world fmts folder w v"
    and "same_text fmts (clock w) (clock v) \<Longrightarrow> out' = out"
  shows "reran fmts w (w\<lparr>written := written w @ [(fp, data, out)]\<rparr>)
           v (v\<lparr>written := written v @ [(fp, data, out')]\<rparr>)"
proof -
  from assms(1) have "bound_from fmts folder (heap w) (heap v)" by (simp add: later_world_def)
  then have "merge_heap (heap v) (heap w) = heap v" by (rule merge_same)
  with assms(2) show ?thesis by (simp add: reran_def serializer_calls_def)
qed

lemma save_step_write: "save_step fmts folder w (w\<lparr>written := written w @ ws\<rparr>)"
  by (simp add: save_step_def bound_from_refl)


lemma same_failures_outcome:
  assumes "later_world fmts folder w v"
  shows "outcome (fmt_serializer (fmts name) (clock w) p d)
       = outcome (fmt_serializer (fmts name) (clock v) p d)"
  using assms by (simp add: later_world_def same_failures_def)

lemma save_sim:
  assumes "save fmts n folder w a = (r, w')" and "later_world fmts folder w v"
  shows "\<exists>v'. save fmts n folder v a = (r, v') \<and> reran fmts w w' v v'"
  using assms
proof (induction n arbitrary: w v a r w')
  case 0
  then show ?case by (auto intro: reran_refl)
next
  case (Suc n)
  note lw = Suc.prems(2)
  from lw have b: "bound_from fmts folder (heap w) (heap v)" by (simp add: later_world_def)
  show ?case
  proof (cases "heap w a")
    case None
    with bound_fromD [OF b, of a] have "heap v a = None" by simp
    with None Suc.prems(1) reran_refl [OF lw] show ?thesis by auto
  next
    case (Some ow)
    with bound_fromD [OF b, of a] obtain ov where ov: "heap v a = Some ov" by auto
    let ?fmt = "fmts (obj_format ow)"
    let ?b = "bind_location ?fmt folder ow"
    let ?w1 = "w\<lparr>heap := (heap w)(a \<mapsto> ?b)\<rparr>"
    let ?v1 = "v\<lparr>heap := (heap v)(a \<mapsto> ?b)\<rparr>"
    from reran_bind [OF lw Some ov]
    have bv: "bind_location (fmts (obj_format ov)) folder ov = ?b"
      and fv: "obj_fields ov = obj_fields ow" and mv: "obj_format ov = obj_format ow"
      and r01: "reran fmts w ?w1 v ?v1" by blast+
    have s01: "save_step fmts folder w ?w1"
      using Some by (simp add: save_step_def bound_from_bind)
    have l1: "later_world fmts folder ?w1 ?v1"
      using lw s01 r01 by (rule later_world_after)
    obtain rc w2 where ch: "save_children (save fmts n folder) ?w1 (obj_fields ow) [] = (rc, w2)"
      by (cases "save_children (save fmts n folder) ?w1 (obj_fields ow) []")
    have "\<exists>v2. save_children (save fmts n folder) ?v1 (obj_fields ow) [] = (rc, v2)
            \<and> reran fmts ?w1 w2 ?v1 v2"
    proof (rule save_children_sim [where fmts = fmts and folder = folder, OF _ _ ch l1])
      show "\<exists>v'. save fmts n folder v a = (r, v') \<and> reran fmts w w' v v'"
        if "save fmts n folder w a = (r, w')" and "later_world fmts folder w v" for w v a r w'
        using that by (rule Suc.IH)
      show "save_step fmts folder w (snd (save fmts n folder w c))" for w c
        by (rule save_step_save)
    qed
    then obtain v2 where chv: "save_children (save fmts n folder) ?v1 (obj_fields ow) [] = (rc, v2)"
      and r12: "reran fmts ?w1 w2 ?v1 v2" by blast
    have "save_step fmts folder ?w1 (snd (save_children (save fmts n folder) ?w1 (obj_fields ow) []))"
      by (rule save_children_step) (rule save_step_save)
    with ch have s12: "save_step fmts folder ?w1 w2" by simp
    have "save_step fmts folder ?v1 (snd (save_children (save fmts n folder) ?v1 (obj_fields ow) []))"
      by (rule save_children_step) (rule save_step_save)
    with chv have sv12: "save_step fmts folder ?v1 v2" by simp
    from s01 s12 have s02: "save_step fmts folder w w2" by (rule save_step_trans)
    have r02: "reran fmts w w2 v v2"
      using lw s01 s12 r01 r12 by (rule reran_trans)
    have l2: "later_world fmts folder w2 v2"
      using lw s02 r02 by (rule later_world_after)
    obtain fp where fp: "filepath ?b = Some fp" by (simp add: bind_location_filepath)
    have "heap ?w1 a = Some ?b" by simp
    with s12 have selfw: "heap w2 a = Some ?b" using fp by (rule save_step_bound_object)
    have "heap ?v1 a = Some ?b" by simp
    with sv12 have selfv: "heap v2 a = Some ?b" using fp by (rule save_step_bound_object)
    show ?thesis
    proof (cases rc)
      case (Inl e)
      from Suc.prems(1) Some ch Inl have "r = Inl e" and "w' = w2"
        by (simp_all add: Let_def)
      moreover from ov chv Inl bv fv mv have "save fmts (Suc n) folder v a = (Inl e, v2)"
        by (simp add: Let_def)
      ultimately show ?thesis using r02 by simp
    next
      case (Inr m)
      let ?data = "save_data m ?b"
      have oc: "outcome (fmt_serializer ?fmt (clock w2) fp ?data)
              = outcome (fmt_serializer ?fmt (clock v2) fp ?data)"
        using l2 by (rule same_failures_outcome)
      from l2 have cw: "cwd v2 = cwd w2" by (simp add: later_world_def)
      show ?thesis
      proof (cases "fmt_serializer ?fmt (clock w2) fp ?data")
        case (Inl e)
        with oc have "fmt_serializer ?fmt (clock v2) fp ?data = Inl e"
          by (cases "fmt_serializer ?fmt (clock v2) fp ?data") (simp_all add: outcome_def)
        with ov chv \<open>rc = Inr m\<close> bv fv mv selfv fp
        have "save fmts (Suc n) folder v a = (Inl e, v2)"
          by (simp add: Let_def)
        moreover from Suc.prems(1) Some ch \<open>rc = Inr m\<close> selfw fp Inl
        have "r = Inl e" and "w' = w2"
          by (simp_all add: Let_def)
        ultimately show ?thesis using r02 by simp
      next
        case (Inr out)
        with oc obtain out' where o': "fmt_serializer ?fmt (clock v2) fp ?data = Inr out'"
          by (cases "fmt_serializer ?fmt (clock v2) fp ?data") (simp_all add: outcome_def)
        let ?w' = "w2\<lparr>written := written w2 @ [(fp, ?data, out)]\<rparr>"
        let ?v' = "v2\<lparr>written := written v2 @ [(fp, ?data, out')]\<rparr>"
        from ov chv \<open>rc = Inr m\<close> bv fv mv selfv fp o' cw
        have B: "save fmts (Suc n) folder v a = (Inr (absolute (cwd w2) fp), ?v')"
          by (simp add: Let_def)
        from Suc.prems(1) Some ch \<open>rc = Inr m\<close> selfw fp Inr
        have A: "r = Inr (absolute (cwd w2) fp)" "w' = ?w'"
          by (simp_all add: Let_def)
        have "out' = out" if "same_text fmts (clock w2) (clock v2)"
          using that Inr o' by (simp add: same_text_def)
        with l2 have rw: "reran fmts w2 ?w' v2 ?v'" by (rule reran_write)
        have "save_step fmts folder w2 ?w'" by (rule save_step_write)
        with lw s02 have "reran fmts w ?w' v ?v'"
          using r02 rw by (rule reran_trans)
        with A B show ?thesis by simp
      qed
    qed
  qed
qed

lemma files_of_repeat: "files_of dir (pre @ new @ new) = files_of dir (pre @ new)"
proof -
  have "m ++ n ++ n = m ++ n" for m n :: "path \<Rightarrow> string option"
    by (rule ext) (simp add: map_add_def split: option.splits)
  then show ?thesis by (simp add: files_of_def)
qed

text \<open>
  C4 (as amended).  A call of \<^verbatim>\<open>save\<close> returns when no serializer raises and the
  nesting is within the depth the interpreter allows.  When \<^verbatim>\<open>save\<close> has returned a
  location, a second \<^verbatim>\<open>save\<close> with the same folder returns the same location, binds
  no location anew, and calls the serializers with the same locations and mappings in
  the same order, provided that whether a serializer fails does not depend on the
  clock.  When the serializers do the same at the two readings of the clock (no
  serializer reads the clock, or the clock reads the same), the texts written are the
  same too, and the files are as the first call left them.
\<close>

theorem save_twice:
  "(within_depth (heap w) n a \<and> serializers_succeed fmts
      \<longrightarrow> (\<exists>loc w'. save fmts n folder w a = (Inr loc, w')))
   \<and> (\<forall>loc w'. save fmts n folder w a = (Inr loc, w') \<and> same_failures fmts (clock w) t \<longrightarrow>
         (\<exists>w''. save fmts n folder (w'\<lparr>clock := t\<rparr>) a = (Inr loc, w'')
            \<and> heap w'' = heap w'
            \<and> take (length (written w')) (written w'') = written w'
            \<and> serializer_calls (drop (length (written w')) (written w''))
                = serializer_calls (drop (length (written w)) (written w'))
            \<and> (same_text fmts (clock w) t \<longrightarrow>
                 drop (length (written w')) (written w'')
                   = drop (length (written w)) (written w')
                 \<and> files_of (cwd w) (written w'') = files_of (cwd w) (written w'))))"
proof (intro conjI allI impI)
  assume "within_depth (heap w) n a \<and> serializers_succeed fmts"
  then show "\<exists>loc w'. save fmts n folder w a = (Inr loc, w')"
    using save_returns [of w n a n fmts folder] by simp
next
  fix loc w'
  assume both: "save fmts n folder w a = (Inr loc, w') \<and> same_failures fmts (clock w) t"
  then have ok: "save fmts n folder w a = (Inr loc, w')"
    and sf: "same_failures fmts (clock w) t" by simp_all
  let ?v = "w'\<lparr>clock := t\<rparr>"
  have "save_step fmts folder w (snd (save fmts n folder w a))" by (rule save_step_save)
  with ok have st: "save_step fmts folder w w'" by simp
  with sf have lw: "later_world fmts folder w ?v"
    by (simp add: later_world_def save_step_def)
  from save_sim [OF ok lw] obtain w'' where
    again: "save fmts n folder ?v a = (Inr loc, w'')" and r: "reran fmts w w' ?v w''" by blast
  have "merge_heap (heap w') (heap w') = heap w'"
    using bound_from_refl by (rule merge_same)
  with r have h: "heap w'' = heap w'" by (simp add: reran_def)
  from r have tk: "take (length (written w')) (written w'') = written w'"
    and sc: "serializer_calls (drop (length (written w')) (written w''))
               = serializer_calls (drop (length (written w)) (written w'))"
    by (simp_all add: reran_def)
  have same: "drop (length (written w')) (written w'') = drop (length (written w)) (written w')
                \<and> files_of (cwd w) (written w'') = files_of (cwd w) (written w')"
    if "same_text fmts (clock w) t"
  proof -
    from r that have d: "drop (length (written w')) (written w'')
        = drop (length (written w)) (written w')"
      by (simp add: reran_def)
    from tk have "written w'' = written w' @ drop (length (written w')) (written w'')"
      by (metis append_take_drop_id)
    with d have 1: "written w'' = written w' @ drop (length (written w)) (written w')" by simp
    have 2: "written w' = written w @ drop (length (written w)) (written w')"
      using st by (rule save_step_written)
    define new where "new = drop (length (written w)) (written w')"
    have "written w'' = written w @ new @ new" and "written w' = written w @ new"
      using 1 2 unfolding new_def [symmetric] by simp_all
    then have "files_of (cwd w) (written w'') = files_of (cwd w) (written w')"
      by (simp only: files_of_repeat)
    with d show ?thesis by simp
  qed
  from again h tk sc same
  show "\<exists>w''. save fmts n folder (w'\<lparr>clock := t\<rparr>) a = (Inr loc, w'')
            \<and> heap w'' = heap w'
            \<and> take (length (written w')) (written w'') = written w'
            \<and> serializer_calls (drop (length (written w')) (written w''))
                = serializer_calls (drop (length (written w)) (written w'))
            \<and> (same_text fmts (clock w) t \<longrightarrow>
                 drop (length (written w')) (written w'')
                   = drop (length (written w)) (written w')
                 \<and> files_of (cwd w) (written w'') = files_of (cwd w) (written w'))"
    by blast
qed

lemma example_same_failures: "same_failures example_formats t t'"
  by (simp add: same_failures_def example_formats_def test_format_def no_serializer_def)

lemma example_same_text: "same_text example_formats t t'"
  by (simp add: same_text_def example_formats_def test_format_def no_serializer_def)

lemma example_within_depth: "within_depth (heap example_graph) 2 0"
  by (simp add: numeral_2_eq_2 example_graph_def)

lemma example_serializers: "serializers_succeed example_formats"
  by (simp add: serializers_succeed_def serializer_raises_def example_formats_def
      test_format_def no_serializer_def)

theorem save_twice_witness:
  "(\<exists>loc w'. save example_formats 2 ''out'' example_graph 0 = (Inr loc, w'))
   \<and> (\<exists>w''. save example_formats 2 ''out''
            ((snd (save example_formats 2 ''out'' example_graph 0))\<lparr>clock := a_second_later\<rparr>) 0
          = (Inr ''/home/out/root.test'', w'')
        \<and> heap w'' = heap (snd (save example_formats 2 ''out'' example_graph 0))
        \<and> drop 3 (written w'') = written (snd (save example_formats 2 ''out'' example_graph 0))
        \<and> files_of ''/home'' (written w'')
            = files_of ''/home'' (written (snd (save example_formats 2 ''out'' example_graph 0))))"
proof -
  let ?w' = "snd (save example_formats 2 ''out'' example_graph 0)"
  note main = save_twice [of example_graph 2 0 example_formats "''out''" a_second_later]
  from main example_within_depth example_serializers
  have 1: "\<exists>loc w'. save example_formats 2 ''out'' example_graph 0 = (Inr loc, w')"
    by blast
  have l: "length (written ?w') = 3"
    by (simp add: numeral_2_eq_2 example_defs)
  have e: "written example_graph = []" "cwd example_graph = ''/home''"
    "clock example_graph = example_clock"
    by (simp_all add: example_graph_def)
  from main [THEN conjunct2, rule_format, OF conjI, OF example_save example_same_failures]
  obtain w'' where
    a: "save example_formats 2 ''out'' (?w'\<lparr>clock := a_second_later\<rparr>) 0
          = (Inr ''/home/out/root.test'', w'')"
    and b: "heap w'' = heap ?w'"
    and c: "same_text example_formats (clock example_graph) a_second_later \<longrightarrow>
                 drop (length (written ?w')) (written w'')
                   = drop (length (written example_graph)) (written ?w')
                 \<and> files_of (cwd example_graph) (written w'')
                     = files_of (cwd example_graph) (written ?w')"
    by (elim exE conjE)
  from c example_same_text have d: "drop 3 (written w'') = written ?w'"
    and f: "files_of ''/home'' (written w'') = files_of ''/home'' (written ?w')"
    by (simp_all add: l e)
  from a b d f have "\<exists>w''. save example_formats 2 ''out'' (?w'\<lparr>clock := a_second_later\<rparr>) 0
          = (Inr ''/home/out/root.test'', w'')
        \<and> heap w'' = heap ?w'
        \<and> drop 3 (written w'') = written ?w'
        \<and> files_of ''/home'' (written w'') = files_of ''/home'' (written ?w')"
    by (intro exI conjI)
  with 1 show ?thesis by (intro conjI)
qed

end
